theory Spec2Isabelle
  imports Main
begin

section \<open>Text primitives\<close>

text \<open>
  The crawler \<^verbatim>\<open>ApiCrawler\<close> of \<^verbatim>\<open>api_crawler.py\<close>, the exporter \<^verbatim>\<open>DataExporter\<close> of
  \<^verbatim>\<open>data_exporter.py\<close> and the search of \<^verbatim>\<open>ApiRegionSearch\<close> in \<^verbatim>\<open>api_region_search.py\<close>.

  Python strings are modelled as HOL strings whose characters stand for the code points
  below 256.  The character classes below are Python's, cut down to that range.
  The Korean dictionary keys and province names of the source are written in English,
  the theory being ASCII: the keys of a record are, in the source's order, sido, sigungu,
  dong (eup-myeon-dong), location (jiyeok), office_name (sangho), representative
  (daepyoja-myeong), phone (jeonhwa-beonho), mobile_phones (mobail-jeonhwa-beonho), address
  (juso) and mem_no.
\<close>

definition isspace :: "char \<Rightarrow> bool" where
  \<comment> \<open>\<^verbatim>\<open>str.isspace\<close> on one character\<close>
  "isspace c =
     (c \<in> set [CHR 0x09, CHR 0x0A, CHR 0x0B, CHR 0x0C, CHR 0x0D, CHR 0x1C, CHR 0x1D,
                CHR 0x1E, CHR 0x1F, CHR 0x20, CHR 0x85, CHR 0xA0])"

definition strip :: "string \<Rightarrow> string" where
  \<comment> \<open>\<^verbatim>\<open>s.strip()\<close>\<close>
  "strip s = rev (dropWhile isspace (rev (dropWhile isspace s)))"

definition is_decimal :: "char \<Rightarrow> bool" where
  \<comment> \<open>the regular expression class \<^verbatim>\<open>\d\<close>\<close>
  "is_decimal c = (c \<in> set ''0123456789'')"

definition isdigit :: "string \<Rightarrow> bool" where
  \<comment> \<open>\<^verbatim>\<open>s.isdigit()\<close>: the superscript digits count as digits too\<close>
  "isdigit s =
     (s \<noteq> [] \<and> list_all (\<lambda>c. is_decimal c \<or> c \<in> set [CHR 0xB2, CHR 0xB3, CHR 0xB9]) s)"

definition digit_val :: "char \<Rightarrow> int" where
  "digit_val c = int (of_char c) - 48"

definition int_of_digits :: "string \<Rightarrow> int" where
  "int_of_digits s = foldl (\<lambda>a c. 10 * a + digit_val c) 0 s"

datatype exn = ValueError | ConnectionError | AttributeError | CallbackError

definition py_int :: "string \<Rightarrow> exn + int" where
  \<comment> \<open>\<^verbatim>\<open>int(s)\<close> for a stripped string: anything but decimal digits raises\<close>
  "py_int s = (if s \<noteq> [] \<and> list_all is_decimal s then Inr (int_of_digits s) else Inl ValueError)"

fun join :: "string \<Rightarrow> string list \<Rightarrow> string" where
  \<comment> \<open>\<^verbatim>\<open>sep.join(xs)\<close>\<close>
  "join sep [] = []"
| "join sep [x] = x"
| "join sep (x # y # ys) = x @ sep @ join sep (y # ys)"

definition is_linebreak :: "char \<Rightarrow> bool" where
  \<comment> \<open>the line boundaries of \<^verbatim>\<open>str.splitlines\<close>\<close>
  "is_linebreak c =
     (c \<in> set [CHR 0x0A, CHR 0x0B, CHR 0x0C, CHR 0x0D, CHR 0x1C, CHR 0x1D, CHR 0x1E, CHR 0x85])"

definition first_line :: "string \<Rightarrow> string" where
  \<comment> \<open>\<^verbatim>\<open>lines = s.splitlines(); lines[0] if lines else ""\<close>\<close>
  "first_line s = takeWhile (\<lambda>c. \<not> is_linebreak c) s"

subsection \<open>The three regular expressions of the crawler\<close>

fun re_search_page :: "string \<Rightarrow> string option" where
  \<comment> \<open>group 1 of \<^verbatim>\<open>re.search(r'page=(\d+)', s)\<close>\<close>
  "re_search_page [] = None"
| "re_search_page (c # cs) =
     (if take 5 (c # cs) = ''page='' \<and> takeWhile is_decimal (drop 5 (c # cs)) \<noteq> []
      then Some (takeWhile is_decimal (drop 5 (c # cs)))
      else re_search_page cs)"

fun re_search_mem_no :: "string \<Rightarrow> string option" where
  \<comment> \<open>group 1 of \<^verbatim>\<open>re.search(r"moveDetail\('(\d+)',", s)\<close>\<close>
  "re_search_mem_no [] = None"
| "re_search_mem_no (c # cs) =
     (let ds = takeWhile is_decimal (drop 12 (c # cs));
          rest = dropWhile is_decimal (drop 12 (c # cs))
      in if take 12 (c # cs) = ''moveDetail('' @ [CHR 0x27] \<and> ds \<noteq> []
            \<and> take 2 rest = [CHR 0x27, CHR '','']
         then Some ds
         else re_search_mem_no cs)"

definition digits_then :: "nat \<Rightarrow> string \<Rightarrow> string option" where
  \<comment> \<open>exactly \<open>n\<close> digits at the start; what follows them\<close>
  "digits_then n s =
     (if n \<le> length s \<and> list_all is_decimal (take n s) then Some (drop n s) else None)"

definition dash_then :: "string \<Rightarrow> string option" where
  "dash_then s = (case s of c # cs \<Rightarrow> if c = CHR ''-'' then Some cs else None | [] \<Rightarrow> None)"

definition phone_shape :: "nat \<Rightarrow> nat \<Rightarrow> string \<Rightarrow> string option" where
  \<comment> \<open>\<open>a\<close> digits, a dash, \<open>b\<close> digits, a dash, four digits; what follows\<close>
  "phone_shape a b s =
     Option.bind (Option.bind (Option.bind (Option.bind
       (digits_then a s) dash_then) (digits_then b)) dash_then) (digits_then 4)"

definition mobile_shape :: "string \<Rightarrow> string option" where
  \<comment> \<open>\<^verbatim>\<open>010-\<close>, four digits, a dash, four digits; what follows\<close>
  "mobile_shape s =
     (if take 4 s = ''010-''
      then Option.bind (Option.bind (digits_then 4 (drop 4 s)) dash_then) (digits_then 4)
      else None)"

definition first_some :: "'a option list \<Rightarrow> 'a option" where
  "first_some xs = (case filter (\<lambda>x. x \<noteq> None) xs of [] \<Rightarrow> None | x # _ \<Rightarrow> x)"

definition re_match_phone :: "string \<Rightarrow> string option" where
  \<comment> \<open>\<^verbatim>\<open>(\d{2,3}-\d{3,4}-\d{4}|010-\d{4}-\d{4})\<close> matched at the start of \<open>s\<close>, in the
      regular expression engine's order of attempts (greedy counts first, then the
      second alternative); the result is what follows the match\<close>
  "re_match_phone s =
     first_some [phone_shape 3 4 s, phone_shape 3 3 s, phone_shape 2 4 s, phone_shape 2 3 s,
                 mobile_shape s]"

fun re_search_phone :: "string \<Rightarrow> bool" where
  \<comment> \<open>whether the phone pattern matches somewhere in \<open>s\<close>\<close>
  "re_search_phone [] = False"
| "re_search_phone (c # cs) = (re_match_phone (c # cs) \<noteq> None \<or> re_search_phone cs)"

section \<open>Documents, the session and the crawler's state\<close>

text \<open>
  The HTML parser is a library.  A parsed page is modelled by what the crawler's
  selectors return on it, in document order.
\<close>

record link =
  link_text :: string  \<comment> \<open>\<^verbatim>\<open>a.text\<close>\<close>
  link_href :: "string option"  \<comment> \<open>\<^verbatim>\<open>a.get('href')\<close>\<close>

record cell =
  cell_text :: string  \<comment> \<open>\<^verbatim>\<open>td.text\<close>\<close>
  cell_anchor :: "link option"  \<comment> \<open>\<^verbatim>\<open>td.select_one('a')\<close>\<close>

type_synonym row = "cell list"  \<comment> \<open>\<^verbatim>\<open>row.select('td')\<close>\<close>

record document =
  pagination_links :: "link list"  \<comment> \<open>\<^verbatim>\<open>soup.select('.pagination a, a[href*="page="]')\<close>\<close>
  table_rows :: "row list"  \<comment> \<open>\<^verbatim>\<open>soup.select('table tr')\<close>\<close>
  text_nodes :: "string list"  \<comment> \<open>the text nodes that \<^verbatim>\<open>find_all(text=...)\<close> filters\<close>

datatype jval = JNull | JInt int | JStr string

fun truthy :: "jval \<Rightarrow> bool" where
  "truthy JNull = False"
| "truthy (JInt n) = (n \<noteq> 0)"
| "truthy (JStr s) = (s \<noteq> [])"

record response =
  status_code :: int
  soup :: document  \<comment> \<open>\<^verbatim>\<open>BeautifulSoup(response.text, 'html.parser')\<close>\<close>
  datMM_name :: "string list option"
    \<comment> \<open>the decoded \<^verbatim>\<open>response.json()["datMM"]["name"]\<close>; \<open>None\<close> when the body is not
        such JSON or a name does not decode\<close>
  datMM_code :: "jval list option"  \<comment> \<open>\<^verbatim>\<open>response.json()["datMM"]["code"]\<close>\<close>

datatype request =
  ComboSearch string int jval  \<comment> \<open>flag, sel_sido, sel_gugun (the time stamp left out)\<close>
| OfficeList int int "jval option" "jval option"  \<comment> \<open>page, sel_sido, sel_gugun, sel_dong\<close>
| OfficeDetail string  \<comment> \<open>mem_no\<close>

datatype http_result = Raises | Returns response

datatype event = Get request | Progress int int int

text \<open>
  The site answers a request knowing everything that happened before it; the progress
  callback either returns or raises.
\<close>

type_synonym transport = "event list \<Rightarrow> request \<Rightarrow> http_result"

datatype cb_result = CbReturns | CbRaises

type_synonym callback = "int \<Rightarrow> int \<Rightarrow> int \<Rightarrow> cb_result"

record office =
  sido :: string
  sigungu :: string
  dong :: string
  location :: string
  office_name :: string
  representative :: string
  phone :: string
  mobile_phones :: string
  address :: string
  mem_no :: "string option"

record crawler =
  results :: "office list"  \<comment> \<open>\<^verbatim>\<open>self.results\<close>\<close>
  sigungu_codes :: "(string \<times> jval) list option"  \<comment> \<open>\<open>None\<close>: the attribute is not set\<close>
  dong_codes :: "(string \<times> jval) list option"
  events :: "event list"  \<comment> \<open>every request sent and every progress report made, in order\<close>

definition init_crawler :: crawler where
  "init_crawler = \<lparr>results = [], sigungu_codes = None, dong_codes = None, events = []\<rparr>"

definition session_get :: "transport \<Rightarrow> request \<Rightarrow> crawler \<Rightarrow> http_result \<times> crawler" where
  "session_get net req st = (net (events st) req, st\<lparr>events := events st @ [Get req]\<rparr>)"

definition sido_mapping :: "(string \<times> int) list" where
  "sido_mapping =
     [(''Seoul'', 1), (''Gyeonggi'', 2), (''Incheon'', 3), (''Busan'', 4), (''Daegu'', 5),
      (''Gwangju'', 6), (''Daejeon'', 7), (''Ulsan'', 8), (''Gangwon'', 9),
      (''Gyeongnam'', 10), (''Gyeongbuk'', 11), (''Jeonnam'', 12), (''Jeonbuk'', 13),
      (''Chungnam'', 14), (''Chungbuk'', 15), (''Sejong'', 16), (''Jeju'', 17)]"

definition dict_set :: "'k \<Rightarrow> 'v \<Rightarrow> ('k \<times> 'v) list \<Rightarrow> ('k \<times> 'v) list" where
  \<comment> \<open>\<^verbatim>\<open>d[k] = v\<close> on an insertion-ordered dictionary\<close>
  "dict_set k v d =
     (if k \<in> fst ` set d then map (\<lambda>(k', v'). if k' = k then (k', v) else (k', v')) d
      else d @ [(k, v)])"

definition name_by_code :: "('k \<times> 'v) list \<Rightarrow> 'v \<Rightarrow> 'k list" where
  "name_by_code d code = map fst (filter (\<lambda>(k, v). v = code) d)"

definition get_sido_name_by_code :: "int \<Rightarrow> string" where
  "get_sido_name_by_code code = (case name_by_code sido_mapping code of [] \<Rightarrow> [] | n # _ \<Rightarrow> n)"

definition get_sigungu_name_by_code :: "crawler \<Rightarrow> jval \<Rightarrow> string" where
  "get_sigungu_name_by_code st code =
     (case sigungu_codes st of None \<Rightarrow> []
      | Some d \<Rightarrow> (case name_by_code d code of [] \<Rightarrow> [] | n # _ \<Rightarrow> n))"

definition get_dong_name_by_code :: "crawler \<Rightarrow> jval \<Rightarrow> string" where
  "get_dong_name_by_code st code =
     (case dong_codes st of None \<Rightarrow> []
      | Some d \<Rightarrow> (case name_by_code d code of [] \<Rightarrow> [] | n # _ \<Rightarrow> n))"

definition build_codes :: "string list \<Rightarrow> jval list option \<Rightarrow> (string \<times> jval) list" where
  "build_codes names codes =
     (case codes of None \<Rightarrow> []
      | Some cs \<Rightarrow> fold (\<lambda>(n, c) d. dict_set n c d) (zip names cs) [])"

definition get_sigungu_list :: "transport \<Rightarrow> string \<Rightarrow> crawler \<Rightarrow> string list \<times> crawler" where
  "get_sigungu_list net sido_name st =
     (case map_of sido_mapping sido_name of None \<Rightarrow> ([], st)
      | Some sido_code \<Rightarrow>
          if sido_code = 0 then ([], st)
          else (case session_get net (ComboSearch ''S'' sido_code (JStr [])) st of
                  (Raises, st1) \<Rightarrow> ([], st1)
                | (Returns r, st1) \<Rightarrow>
                    if status_code r \<noteq> 200 then ([], st1)
                    else (case datMM_name r of None \<Rightarrow> ([], st1)
                          | Some names \<Rightarrow>
                              (names, st1\<lparr>sigungu_codes :=
                                             Some (build_codes names (datMM_code r))\<rparr>))))"

definition get_dong_list ::
  "transport \<Rightarrow> string \<Rightarrow> string \<Rightarrow> crawler \<Rightarrow> string list \<times> crawler" where
  "get_dong_list net sido_name sigungu_name st =
     (case map_of sido_mapping sido_name of None \<Rightarrow> ([], st)
      | Some sido_code \<Rightarrow>
          if sido_code = 0 then ([], st)
          else (case sigungu_codes st of None \<Rightarrow> ([], st)
            | Some d \<Rightarrow>
              (case map_of d sigungu_name of None \<Rightarrow> ([], st)
               | Some sigungu_code \<Rightarrow>
                  if \<not> truthy sigungu_code then ([], st)
                  else (case session_get net (ComboSearch ''G'' sido_code sigungu_code) st of
                          (Raises, st1) \<Rightarrow> ([], st1)
                        | (Returns r, st1) \<Rightarrow>
                            if status_code r \<noteq> 200 then ([], st1)
                            else (case datMM_name r of None \<Rightarrow> ([], st1)
                                  | Some names \<Rightarrow>
                                      (names, st1\<lparr>dong_codes :=
                                                 Some (build_codes names (datMM_code r))\<rparr>))))))"

section \<open>Pagination discovery\<close>

text \<open>
  \<^verbatim>\<open>ApiCrawler.get_total_pages\<close>.  The request can raise, and so can the conversion of a
  link text to a number; both end in a handler of the function.
\<close>

definition office_list_request :: "int \<Rightarrow> int \<Rightarrow> jval option \<Rightarrow> jval \<Rightarrow> request" where
  \<comment> \<open>the query parameters both listing functions build\<close>
  "office_list_request page sido_code sigungu_code dong_code =
     OfficeList page sido_code
       (case sigungu_code of None \<Rightarrow> None | Some c \<Rightarrow> if truthy c then Some c else None)
       (if truthy dong_code then Some dong_code else None)"

definition is_last_link :: "link \<Rightarrow> bool" where
  "is_last_link l = (strip (link_text l) = ''>>'' \<or> strip (link_text l) = [CHR 0xBB])"

definition last_page_link :: "link list \<Rightarrow> string option" where
  \<comment> \<open>the href of the first link labelled as the jump to the last page, when it is
      neither missing nor empty\<close>
  "last_page_link links =
     (case filter is_last_link links of [] \<Rightarrow> None
      | l # _ \<Rightarrow> (case link_href l of None \<Rightarrow> None
                  | Some h \<Rightarrow> if h = [] then None else Some h))"

fun sequence :: "(exn + 'a) list \<Rightarrow> exn + 'a list" where
  "sequence [] = Inr []"
| "sequence (Inl e # _) = Inl e"
| "sequence (Inr x # xs) = (case sequence xs of Inl e \<Rightarrow> Inl e | Inr ys \<Rightarrow> Inr (x # ys))"

definition page_numbers :: "link list \<Rightarrow> exn + int list" where
  \<comment> \<open>\<^verbatim>\<open>[int(a.text.strip()) for a in links if a.text.strip().isdigit()]\<close>\<close>
  "page_numbers links =
     sequence (map (\<lambda>l. py_int (strip (link_text l)))
                   (filter (\<lambda>l. isdigit (strip (link_text l))) links))"

fun list_max :: "int list \<Rightarrow> int" where
  "list_max [] = 0"
| "list_max (x # xs) = fold max xs x"

definition total_from_links :: "link list \<Rightarrow> exn + int option" where
  \<comment> \<open>the inner \<^verbatim>\<open>try\<close> block of \<^verbatim>\<open>get_total_pages\<close>: \<open>Some n\<close> is
      \<^verbatim>\<open>return n\<close>, \<open>None\<close> falls through\<close>
  "total_from_links links =
     (case (case last_page_link links of None \<Rightarrow> None | Some h \<Rightarrow> re_search_page h) of
        Some g \<Rightarrow> (case py_int g of Inl e \<Rightarrow> Inl e | Inr n \<Rightarrow> Inr (Some n))
      | None \<Rightarrow>
          (case page_numbers links of Inl e \<Rightarrow> Inl e
           | Inr ns \<Rightarrow> if ns \<noteq> [] then Inr (Some (list_max ns)) else Inr None))"

definition get_total_pages ::
  "transport \<Rightarrow> int \<Rightarrow> jval option \<Rightarrow> jval \<Rightarrow> crawler \<Rightarrow> int \<times> crawler" where
  "get_total_pages net sido_code sigungu_code dong_code st =
     (case session_get net (office_list_request 1 sido_code sigungu_code dong_code) st of
        (Raises, st1) \<Rightarrow> (1, st1)
      | (Returns r, st1) \<Rightarrow>
          if status_code r \<noteq> 200 then (0, st1)
          else if pagination_links (soup r) \<noteq> [] then
            (case total_from_links (pagination_links (soup r)) of
               Inr (Some n) \<Rightarrow> (n, st1)
             | Inr None \<Rightarrow> (1, st1)
             | Inl e \<Rightarrow> (1, st1))
          else (1, st1))"

section \<open>The listing scraper\<close>

text \<open>
  \<^verbatim>\<open>ApiCrawler._scrape_office_data_from_html\<close>, cut at its loops: the body of the row loop
  is \<open>scrape_row\<close>, the row loop \<open>scrape_rows\<close>, one turn of the page loop
  \<open>scrape_page\<close>, the page loop \<open>scrape_loop\<close>.  What can raise is a request and the
  progress callback.  A detail request that raises is caught inside the row; everything
  else that raises ends in the outer handler, which returns the empty list.
\<close>

definition report :: "callback option \<Rightarrow> int \<Rightarrow> int \<Rightarrow> int \<Rightarrow> crawler \<Rightarrow> cb_result \<times> crawler" where
  \<comment> \<open>\<^verbatim>\<open>if progress_callback: progress_callback(current, total, count)\<close>\<close>
  "report cb current tp n st =
     (case cb of None \<Rightarrow> (CbReturns, st)
      | Some f \<Rightarrow> (f current tp n, st\<lparr>events := events st @ [Progress current tp n]\<rparr>))"

definition phone_elements :: "document \<Rightarrow> string list" where
  \<comment> \<open>\<^verbatim>\<open>detail_soup.find_all(text=re.compile(...))\<close>: whole text nodes\<close>
  "phone_elements doc = filter re_search_phone (text_nodes doc)"

definition append_phone :: "string \<Rightarrow> string list \<Rightarrow> string list" where
  \<comment> \<open>\<^verbatim>\<open>if phone not in mobile_phones: mobile_phones.append(phone)\<close>\<close>
  "append_phone p ms = (if p \<in> set ms then ms else ms @ [p])"

definition row_phones :: "string list \<Rightarrow> string \<Rightarrow> string \<times> string list" where
  \<comment> \<open>the loop over the phone elements inside the row loop; it assigns the row's
      variable \<^verbatim>\<open>phone\<close>\<close>
  "row_phones elems phone0 =
     fold (\<lambda>e (p, ms). (strip e, append_phone (strip e) ms)) elems (phone0, [])"

definition row_detail :: "transport \<Rightarrow> string \<Rightarrow> string \<Rightarrow> crawler \<Rightarrow> (string \<times> string list) \<times> crawler"
  where
  \<comment> \<open>the detail lookup of one row, with its own \<^verbatim>\<open>try\<close>\<close>
  "row_detail net m phone0 st =
     (case session_get net (OfficeDetail m) st of
        (Raises, st1) \<Rightarrow> ((phone0, []), st1)
      | (Returns r, st1) \<Rightarrow>
          if status_code r = 200 then (row_phones (phone_elements (soup r)) phone0, st1)
          else ((phone0, []), st1))"

definition anchor_href :: "link \<Rightarrow> string" where
  \<comment> \<open>\<^verbatim>\<open>a.get('href', '')\<close>\<close>
  "anchor_href a = (case link_href a of None \<Rightarrow> [] | Some h \<Rightarrow> h)"

definition scrape_row ::
  "transport \<Rightarrow> int \<Rightarrow> jval option \<Rightarrow> jval \<Rightarrow> row \<Rightarrow> crawler \<Rightarrow> office option \<times> crawler" where
  \<comment> \<open>the body of the row loop; \<open>None\<close> when the row adds nothing\<close>
  "scrape_row net sido_code sigungu_code dong_code columns st =
     (if 5 \<le> length columns then
        let loc = strip (cell_text (columns ! 0));
            name = (case cell_anchor (columns ! 1) of
                      Some a \<Rightarrow> strip (first_line (strip (link_text a)))
                    | None \<Rightarrow> []);
            mem = (case cell_anchor (columns ! 1) of
                     Some a \<Rightarrow> re_search_mem_no (anchor_href a)
                   | None \<Rightarrow> None);
            rep = strip (cell_text (columns ! 2));
            phone0 = (case cell_anchor (columns ! 3) of
                        Some a \<Rightarrow> strip (link_text a)
                      | None \<Rightarrow> []);
            addr = strip (cell_text (columns ! 4));
            ((phone1, mobiles), st1) =
               (case mem of
                  Some m \<Rightarrow> if m \<noteq> [] then row_detail net m phone0 st else ((phone0, []), st)
                | None \<Rightarrow> ((phone0, []), st))
        in (Some \<lparr>sido = get_sido_name_by_code sido_code,
                  sigungu = (case sigungu_code of
                               Some c \<Rightarrow> if truthy c then get_sigungu_name_by_code st1 c else []
                             | None \<Rightarrow> []),
                  dong = (if truthy dong_code then get_dong_name_by_code st1 dong_code else []),
                  location = loc,
                  office_name = name,
                  representative = rep,
                  phone = phone1,
                  mobile_phones = join '', '' mobiles,
                  address = addr,
                  mem_no = mem\<rparr>, st1)
      else (None, st))"

fun scrape_rows ::
  "transport \<Rightarrow> int \<Rightarrow> jval option \<Rightarrow> jval \<Rightarrow> row list \<Rightarrow> office list \<Rightarrow> crawler
   \<Rightarrow> office list \<times> crawler" where
  \<comment> \<open>\<^verbatim>\<open>for row in office_rows[1:]\<close>, the caller dropping the first row\<close>
  "scrape_rows net sido_code sigungu_code dong_code [] rs st = (rs, st)"
| "scrape_rows net sido_code sigungu_code dong_code (columns # rows) rs st =
     (case scrape_row net sido_code sigungu_code dong_code columns st of
        (None, st1) \<Rightarrow> scrape_rows net sido_code sigungu_code dong_code rows rs st1
      | (Some r, st1) \<Rightarrow> scrape_rows net sido_code sigungu_code dong_code rows (rs @ [r]) st1)"

definition discover_total_pages :: "document \<Rightarrow> int \<Rightarrow> int" where
  \<comment> \<open>the first page's pagination block inside the page loop; the page numbers are
      built first, so an exception there leaves the count as it was\<close>
  "discover_total_pages doc total_pages =
     (if pagination_links doc \<noteq> [] then
        (case page_numbers (pagination_links doc) of
           Inl e \<Rightarrow> total_pages
         | Inr ns \<Rightarrow>
             (case last_page_link (pagination_links doc) of
                Some h \<Rightarrow>
                  (case re_search_page h of
                     Some g \<Rightarrow> (case py_int g of Inl e \<Rightarrow> total_pages | Inr n \<Rightarrow> n)
                   | None \<Rightarrow> total_pages)
              | None \<Rightarrow> if ns \<noteq> [] then list_max ns else total_pages))
      else total_pages)"

datatype page_step =
  Abort crawler  \<comment> \<open>an exception left the loop\<close>
| Break "office list" crawler
| Continue int "office list" crawler  \<comment> \<open>the total page count, the results, the state\<close>

definition scrape_page ::
  "transport \<Rightarrow> callback option \<Rightarrow> int \<Rightarrow> jval option \<Rightarrow> jval \<Rightarrow> document
   \<Rightarrow> int \<Rightarrow> int \<Rightarrow> office list \<Rightarrow> crawler \<Rightarrow> page_step" where
  \<comment> \<open>one turn of the \<^verbatim>\<open>while\<close> loop; \<open>first\<close> is the document fetched before the loop\<close>
  "scrape_page net cb sido_code sigungu_code dong_code first current_page total_pages rs st =
     (case report cb current_page total_pages (int (length rs)) st of
        (CbRaises, st1) \<Rightarrow> Abort st1
      | (CbReturns, st1) \<Rightarrow>
          if 1 < current_page then
            (case session_get net
                    (office_list_request current_page sido_code sigungu_code dong_code) st1 of
               (Raises, st2) \<Rightarrow> Abort st2
             | (Returns r, st2) \<Rightarrow>
                 if status_code r \<noteq> 200 then Break rs st2
                 else (case scrape_rows net sido_code sigungu_code dong_code
                              (drop 1 (table_rows (soup r))) rs st2 of
                         (rs', st3) \<Rightarrow> Continue total_pages rs' st3))
          else
            (case scrape_rows net sido_code sigungu_code dong_code
                    (drop 1 (table_rows first)) rs st1 of
               (rs', st3) \<Rightarrow>
                 Continue (if current_page = 1 then discover_total_pages first total_pages
                           else total_pages) rs' st3))"

function scrape_loop ::
  "transport \<Rightarrow> callback option \<Rightarrow> int \<Rightarrow> jval option \<Rightarrow> jval \<Rightarrow> document
   \<Rightarrow> int \<Rightarrow> int \<Rightarrow> office list \<Rightarrow> crawler \<Rightarrow> office list option \<times> crawler" where
  \<comment> \<open>\<^verbatim>\<open>while current_page <= total_pages\<close>; \<open>None\<close> when an exception left the loop\<close>
  "scrape_loop net cb sido_code sigungu_code dong_code first current_page total_pages rs st =
     (if current_page \<le> total_pages then
        (case scrape_page net cb sido_code sigungu_code dong_code first
                current_page total_pages rs st of
           Abort st1 \<Rightarrow> (None, st1)
         | Break rs1 st1 \<Rightarrow> (Some rs1, st1)
         | Continue total_pages1 rs1 st1 \<Rightarrow>
             scrape_loop net cb sido_code sigungu_code dong_code first
               (current_page + 1) total_pages1 rs1 st1)
      else (Some rs, st))"
  by pat_completeness auto
termination
  apply (relation "measures
     [\<lambda>(net, cb, sido_code, sigungu_code, dong_code, first, current_page, total_pages, rs, st).
         if current_page \<le> 1 then 1 else 0,
      \<lambda>(net, cb, sido_code, sigungu_code, dong_code, first, current_page, total_pages, rs, st).
         nat (total_pages + 1 - current_page)]")
   apply simp
  apply (auto simp: scrape_page_def split: prod.splits cb_result.splits http_result.splits
                    if_splits)
  done

declare scrape_loop.simps [simp del]

definition scrape_office_data_from_html ::
  "transport \<Rightarrow> callback option \<Rightarrow> int \<Rightarrow> jval option \<Rightarrow> jval \<Rightarrow> crawler
   \<Rightarrow> office list \<times> crawler" where
  \<comment> \<open>every exception ends in the outer handler, which returns the empty list\<close>
  "scrape_office_data_from_html net cb sido_code sigungu_code dong_code st =
     (case session_get net (office_list_request 1 sido_code sigungu_code dong_code) st of
        (Raises, st1) \<Rightarrow> ([], st1)
      | (Returns r, st1) \<Rightarrow>
          if status_code r \<noteq> 200 then ([], st1)
          else (case scrape_loop net cb sido_code sigungu_code dong_code (soup r) 1 1 [] st1 of
                  (None, st2) \<Rightarrow> ([], st2)
                | (Some rs, st2) \<Rightarrow> (rs, st2)))"

section \<open>The search\<close>

text \<open>
  \<^verbatim>\<open>ApiCrawler.search_real_estate_offices\<close>: the codes are looked up, the page count is
  discovered and reported, the listing is scraped, and every record that has an
  identifier is updated from its detail page.
\<close>

definition detail_mobile_phones :: "document \<Rightarrow> string list" where
  \<comment> \<open>the loop over the phone elements of a detail page in the search\<close>
  "detail_mobile_phones doc = fold (\<lambda>e ms. append_phone (strip e) ms) (phone_elements doc) []"

definition update_detail :: "transport \<Rightarrow> office \<Rightarrow> crawler \<Rightarrow> office \<times> crawler" where
  \<comment> \<open>one turn of the loop that updates the results from the detail pages\<close>
  "update_detail net r st =
     (case mem_no r of None \<Rightarrow> (r, st)
      | Some m \<Rightarrow>
          if m = [] then (r, st)
          else (case session_get net (OfficeDetail m) st of
                  (Raises, st1) \<Rightarrow> (r, st1)
                | (Returns d, st1) \<Rightarrow>
                    if status_code d = 200
                    then (r\<lparr>mobile_phones := join '', '' (detail_mobile_phones (soup d))\<rparr>, st1)
                    else (r, st1)))"

fun update_details :: "transport \<Rightarrow> office list \<Rightarrow> crawler \<Rightarrow> office list \<times> crawler" where
  "update_details net [] st = ([], st)"
| "update_details net (r # rs) st =
     (case update_detail net r st of
        (r1, st1) \<Rightarrow> (case update_details net rs st1 of (rs1, st2) \<Rightarrow> (r1 # rs1, st2)))"

definition str_truthy :: "string option \<Rightarrow> bool" where
  "str_truthy s = (case s of None \<Rightarrow> False | Some x \<Rightarrow> x \<noteq> [])"

definition lookup_sigungu_code ::
  "transport \<Rightarrow> string \<Rightarrow> string option \<Rightarrow> crawler \<Rightarrow> jval option option \<times> crawler" where
  \<comment> \<open>the district block of the search; the outer \<open>None\<close> is \<^verbatim>\<open>return False\<close>, by the
      statement itself or through the handler of an \<^verbatim>\<open>AttributeError\<close>\<close>
  "lookup_sigungu_code net sido_name sigungu_name st =
     (case sigungu_name of None \<Rightarrow> (Some None, st)
      | Some g \<Rightarrow>
          if g = [] then (Some None, st)
          else
            (case (if sigungu_codes st = None then snd (get_sigungu_list net sido_name st)
                   else st) of
               st1 \<Rightarrow>
                 (case sigungu_codes st1 of None \<Rightarrow> (None, st1)
                  | Some d \<Rightarrow>
                      (case map_of d g of None \<Rightarrow> (None, st1)
                       | Some c \<Rightarrow> if truthy c then (Some (Some c), st1) else (None, st1)))))"

definition lookup_dong_code ::
  "transport \<Rightarrow> string \<Rightarrow> string option \<Rightarrow> string option \<Rightarrow> crawler \<Rightarrow> jval option \<times> crawler"
  where
  \<comment> \<open>the sub-district block of the search; \<open>None\<close> is the \<^verbatim>\<open>AttributeError\<close>\<close>
  "lookup_dong_code net sido_name sigungu_name dong_name st =
     (if str_truthy dong_name \<and> str_truthy sigungu_name then
        (case (if dong_codes st = None
               then snd (get_dong_list net sido_name (the sigungu_name) st) else st) of
           st1 \<Rightarrow>
             (case dong_codes st1 of None \<Rightarrow> (None, st1)
              | Some d \<Rightarrow>
                  (case map_of d (the dong_name) of None \<Rightarrow> (Some (JStr []), st1)
                   | Some c \<Rightarrow> (Some c, st1))))
      else (Some (JStr []), st))"

definition search_real_estate_offices ::
  "transport \<Rightarrow> callback option \<Rightarrow> string \<Rightarrow> string option \<Rightarrow> string option \<Rightarrow> crawler
   \<Rightarrow> bool \<times> crawler" where
  "search_real_estate_offices net cb sido_name sigungu_name dong_name st =
     (case map_of sido_mapping sido_name of None \<Rightarrow> (False, st)
      | Some sido_code \<Rightarrow>
        if sido_code = 0 then (False, st)
        else
         (case lookup_sigungu_code net sido_name sigungu_name st of
            (None, st1) \<Rightarrow> (False, st1)
          | (Some sigungu_code, st1) \<Rightarrow>
             (case lookup_dong_code net sido_name sigungu_name dong_name st1 of
                (None, st2) \<Rightarrow> (False, st2)
              | (Some dong_code, st2) \<Rightarrow>
                 (case get_total_pages net sido_code sigungu_code dong_code st2 of
                    (total_pages, st3) \<Rightarrow>
                     (case report cb 0 total_pages 0 st3 of
                        (CbRaises, st4) \<Rightarrow> (False, st4)
                      | (CbReturns, st4) \<Rightarrow>
                         (case scrape_office_data_from_html net cb sido_code sigungu_code
                                 dong_code st4 of
                            (rs, st5) \<Rightarrow>
                             (case update_details net rs st5 of
                                (rs1, st6) \<Rightarrow>
                                  (0 < length rs1, st6\<lparr>results := rs1\<rparr>))))))))"

section \<open>The exporter\<close>

text \<open>
  The records exported are the ones the crawler builds, which all carry the same ten
  keys.  The data frame is a library object: it is modelled by its column names and its
  rows, and \<^verbatim>\<open>DataFrame.drop_duplicates()\<close> by its documented behaviour, which compares
  whole rows and keeps the first of equal ones.
\<close>

record frame =
  frame_columns :: "string list"
  frame_rows :: "string list list"

definition empty_frame :: frame where
  "empty_frame = \<lparr>frame_columns = [], frame_rows = []\<rparr>"

definition frame_empty :: "frame \<Rightarrow> bool" where
  \<comment> \<open>\<^verbatim>\<open>df.empty\<close>\<close>
  "frame_empty df = (frame_columns df = [] \<or> frame_rows df = [])"

definition drop_duplicates :: "'a list \<Rightarrow> 'a list" where
  "drop_duplicates xs = fold (\<lambda>x kept. if x \<in> set kept then kept else kept @ [x]) xs []"

definition export_columns :: "string list" where
  "export_columns =
     [''sido'', ''sigungu'', ''dong'', ''office_name'', ''representative'', ''phone'',
      ''mobile_phones'', ''address'']"

definition office_row :: "office \<Rightarrow> string list" where
  \<comment> \<open>the record's values under the exported columns\<close>
  "office_row r =
     [sido r, sigungu r, dong r, office_name r, representative r, phone r, mobile_phones r,
      address r]"

definition clean_data :: "office list \<Rightarrow> frame" where
  \<comment> \<open>the duplicates are dropped on all ten columns, before the eight are selected\<close>
  "clean_data data =
     (if data = [] then empty_frame
      else \<lparr>frame_columns = export_columns,
            frame_rows = map office_row (drop_duplicates data)\<rparr>)"

record export_env =
  default_directory :: string
  timestamp :: string  \<comment> \<open>\<^verbatim>\<open>datetime.now().strftime("%Y%m%d_%H%M%S")\<close>\<close>
  writable :: "string \<Rightarrow> bool"
    \<comment> \<open>whether the directory can be made and the file written; otherwise the operating
        system call raises\<close>

definition lower_char :: "char \<Rightarrow> char" where
  "lower_char c =
     (if c \<in> set ''ABCDEFGHIJKLMNOPQRSTUVWXYZ'' then char_of (of_char c + (32::nat)) else c)"

definition endswith :: "string \<Rightarrow> string \<Rightarrow> bool" where
  "endswith s suffix = (length suffix \<le> length s \<and> drop (length s - length suffix) s = suffix)"

definition os_path_join :: "string \<Rightarrow> string \<Rightarrow> string" where
  \<comment> \<open>\<^verbatim>\<open>os.path.join\<close> on two components\<close>
  "os_path_join a b =
     (if take 1 b = ''/'' then b
      else if a = [] \<or> endswith a ''/'' then a @ b
      else a @ ''/'' @ b)"

definition export_to_csv ::
  "export_env \<Rightarrow> office list \<Rightarrow> string option \<Rightarrow> string option \<Rightarrow> (string \<times> frame) list
   \<Rightarrow> string option \<times> (string \<times> frame) list" where
  \<comment> \<open>the last argument and the second result are the files written so far\<close>
  "export_to_csv env data filename directory files =
     (if frame_empty (clean_data data) then (None, files)
      else
        let save_dir = (if str_truthy directory then the directory else default_directory env)
        in if \<not> writable env save_dir then (None, files)
           else
             let name0 = (if str_truthy filename then the filename
                          else ''real_estate_offices_'' @ timestamp env @ ''.csv'');
                 name1 = (if endswith (map lower_char name0) ''.csv'' then name0
                          else name0 @ ''.csv'');
                 file_path = os_path_join save_dir name1
             in (Some file_path, files @ [(file_path, clean_data data)]))"

section \<open>The region search\<close>



section \<open>The trace of a run\<close>

definition detail_gets :: "office list \<Rightarrow> event list" where
  "detail_gets rs =
     concat (map (\<lambda>r. case mem_no r of None \<Rightarrow> []
                        | Some m \<Rightarrow> if m = [] then [] else [Get (OfficeDetail m)]) rs)"

fun is_detail :: "event \<Rightarrow> bool" where
  "is_detail (Get (OfficeDetail m)) = True"
| "is_detail _ = False"

fun is_first_page :: "event \<Rightarrow> bool" where
  "is_first_page (Get (OfficeList p s g d)) = (p = 1)"
| "is_first_page _ = False"

fun is_combo :: "event \<Rightarrow> bool" where
  "is_combo (Get (ComboSearch f s g)) = True"
| "is_combo _ = False"

fun is_progress :: "event \<Rightarrow> bool" where
  "is_progress (Progress n t c) = True"
| "is_progress _ = False"

fun reported_pages :: "event list \<Rightarrow> int list" where
  "reported_pages [] = []"
| "reported_pages (Progress n t c # evs) = n # reported_pages evs"
| "reported_pages (Get r # evs) = reported_pages evs"

fun step_state :: "page_step \<Rightarrow> crawler" where
  "step_state (Abort st) = st"
| "step_state (Break rs st) = st"
| "step_state (Continue t rs st) = st"

section \<open>The specification's wording of the enriched field, and concrete runs\<close>

text \<open>
  The enriched field as the specification words it: the phone-shaped substrings of the
  detail document, each kept at its first occurrence, joined with a comma and a space.
\<close>

definition match_length :: "string \<Rightarrow> nat option" where
  "match_length s = map_option (\<lambda>r. length s - length r) (re_match_phone s)"

fun findall_phones :: "nat \<Rightarrow> string \<Rightarrow> string list" where
  \<comment> \<open>\<^verbatim>\<open>pattern.findall(s)\<close>; the first argument counts the characters still covered
      by the match before\<close>
  "findall_phones k [] = []"
| "findall_phones (Suc k) (c # cs) = findall_phones k cs"
| "findall_phones 0 (c # cs) =
     (case match_length (c # cs) of
        None \<Rightarrow> findall_phones 0 cs
      | Some n \<Rightarrow> take n (c # cs) # findall_phones (n - 1) cs)"

definition spec_mobile_phones :: "document \<Rightarrow> string" where
  "spec_mobile_phones doc =
     join '', '' (rev (remdups (rev (concat (map (findall_phones 0) (text_nodes doc))))))"

definition empty_document :: document where
  "empty_document = \<lparr>pagination_links = [], table_rows = [], text_nodes = []\<rparr>"

definition page_response :: "int \<Rightarrow> document \<Rightarrow> response" where
  "page_response code doc =
     \<lparr>status_code = code, soup = doc, datMM_name = None, datMM_code = None\<rparr>"

definition text_cell :: "string \<Rightarrow> cell" where
  "text_cell t = \<lparr>cell_text = t, cell_anchor = None\<rparr>"

definition anchor_cell :: "string \<Rightarrow> string option \<Rightarrow> cell" where
  "anchor_cell t h = \<lparr>cell_text = t, cell_anchor = Some \<lparr>link_text = t, link_href = h\<rparr>\<rparr>"

definition header_row :: row where
  \<comment> \<open>a row of \<^verbatim>\<open>th\<close> cells\<close>
  "header_row = []"

definition listed_row :: row where
  "listed_row =
     [text_cell ''Gangnam'',
      anchor_cell ''Best Realty''
        (Some (''javascript:moveDetail('' @ [CHR 0x27] @ ''77'' @ [CHR 0x27] @ '',1)'')),
      text_cell ''Kim'',
      anchor_cell ''02-111-2222'' None,
      text_cell ''12 Main St'']"

definition plain_row :: row where
  "plain_row =
     [text_cell ''Mapo'', text_cell ''Corner Realty'', text_cell ''Lee'', text_cell ''02-333-4444'',
      text_cell ''3 Hill Rd'']"


definition listing_document :: document where
  "listing_document =
     \<lparr>pagination_links = [], table_rows = [header_row, listed_row], text_nodes = []\<rparr>"

definition detail_document :: document where
  "detail_document =
     \<lparr>pagination_links = [], table_rows = [],
      text_nodes = [''02-123-4567'', ''02-123-4567'', ''010-1234-5678'']\<rparr>"

definition labelled_document :: document where
  "labelled_document =
     \<lparr>pagination_links = [], table_rows = [], text_nodes = [''Tel 02-123-4567'']\<rparr>"

definition two_page_document :: document where
  "two_page_document =
     \<lparr>pagination_links = [\<lparr>link_text = ''2'', link_href = Some ''?page=2''\<rparr>],
      table_rows = [header_row, plain_row], text_nodes = []\<rparr>"

definition site :: transport where
  \<comment> \<open>one listing page with one office, whose detail page names three numbers\<close>
  "site evs req =
     (case req of
        OfficeList p s g d \<Rightarrow> Returns (page_response 200 listing_document)
      | OfficeDetail m \<Rightarrow> Returns (page_response 200 detail_document)
      | ComboSearch f s g \<Rightarrow> Raises)"

definition two_page_site :: transport where
  "two_page_site evs req = Returns (page_response 200 two_page_document)"

definition empty_site :: transport where
  \<comment> \<open>every page is served, and is empty\<close>
  "empty_site evs req = Returns (page_response 200 empty_document)"

definition net_unavailable :: transport where
  "net_unavailable evs req = Returns (page_response 503 empty_document)"

definition net_unreachable :: transport where
  "net_unreachable evs req = Raises"

definition callback_returns :: callback where
  "callback_returns n t k = CbReturns"


definition office_a :: office where
  "office_a =
     \<lparr>sido = ''Seoul'', sigungu = ''Gangnam'', dong = ''Yeoksam'', location = ''Gangnam'',
      office_name = ''Best Realty'', representative = ''Kim'', phone = ''02-111-2222'',
      mobile_phones = ''010-1234-5678'', address = ''12 Main St'', mem_no = Some ''77''\<rparr>"

definition office_b :: office where
  \<comment> \<open>the same office under another address\<close>
  "office_b = office_a\<lparr>address := ''14 Main St''\<rparr>"

definition test_env :: export_env where
  "test_env = \<lparr>default_directory = ''/home/user/Documents'', timestamp = ''20240101_000000'',
               writable = (\<lambda>d. True)\<rparr>"


section \<open>Lemmas about the trace\<close>

lemma detail_gets_append: "detail_gets (xs @ ys) = detail_gets xs @ detail_gets ys"
  by (simp add: detail_gets_def)

lemma detail_gets_Nil: "detail_gets [] = []"
  by (simp add: detail_gets_def)

lemma detail_gets_only_details: "filter is_detail (detail_gets rs) = detail_gets rs"
  by (induction rs) (auto simp: detail_gets_def split: option.splits)

lemma detail_gets_no_first_page: "filter is_first_page (detail_gets rs) = []"
  by (induction rs) (auto simp: detail_gets_def split: option.splits)

lemma detail_gets_no_progress: "filter is_progress (detail_gets rs) = []"
  by (induction rs) (auto simp: detail_gets_def split: option.splits)

lemma detail_gets_cong: "map mem_no xs = map mem_no ys \<Longrightarrow> detail_gets xs = detail_gets ys"
proof (induction xs arbitrary: ys)
  case Nil
  then show ?case by simp
next
  case (Cons x xs)
  then obtain y ys' where "ys = y # ys'" by (cases ys) auto
  with Cons show ?case by (auto simp: detail_gets_def)
qed


lemma re_search_mem_no_nonempty: "re_search_mem_no s = Some m \<Longrightarrow> m \<noteq> []"
  by (induction s rule: re_search_mem_no.induct) (auto simp: Let_def split: if_splits)

lemma session_get_events:
  "session_get net req st = (x, st1) \<Longrightarrow> events st1 = events st @ [Get req]"
  by (auto simp: session_get_def)

lemma row_detail_events:
  "row_detail net m p st = (x, st1) \<Longrightarrow> events st1 = events st @ [Get (OfficeDetail m)]"
  by (auto simp: row_detail_def session_get_def split: http_result.splits if_splits)

lemma scrape_row_events:
  assumes "scrape_row net a b c columns st = (ro, st1)"
  shows "events st1 = events st @ detail_gets (case ro of None \<Rightarrow> [] | Some r \<Rightarrow> [r])"
    and "(ro = None) = (length columns < 5)"
    and "\<forall>r. ro = Some r \<longrightarrow> mem_no r \<noteq> Some []"
  using assms
  by (auto simp: scrape_row_def Let_def detail_gets_def split: if_splits option.splits prod.splits
           dest: row_detail_events re_search_mem_no_nonempty)

lemma scrape_rows_events:
  "scrape_rows net a b c rows rs st = (rs1, st1) \<Longrightarrow>
   \<exists>added. rs1 = rs @ added \<and> events st1 = events st @ detail_gets added \<and>
           length added = length (filter (\<lambda>columns. 5 \<le> length columns) rows) \<and>
           (\<forall>r \<in> set added. mem_no r \<noteq> Some [])"
proof (induction rows arbitrary: rs st)
  case Nil
  then show ?case by (simp add: detail_gets_def)
next
  case (Cons columns rows)
  obtain ro st0 where row: "scrape_row net a b c columns st = (ro, st0)"
    by (cases "scrape_row net a b c columns st")
  note facts = scrape_row_events[OF row]
  show ?case
  proof (cases ro)
    case None
    with Cons.prems row have "scrape_rows net a b c rows rs st0 = (rs1, st1)" by simp
    from Cons.IH[OF this] obtain added where
      "rs1 = rs @ added" "events st1 = events st0 @ detail_gets added"
      "length added = length (filter (\<lambda>columns. 5 \<le> length columns) rows)"
      "\<forall>r \<in> set added. mem_no r \<noteq> Some []" by blast
    with facts None show ?thesis by (auto simp: detail_gets_def)
  next
    case (Some r)
    with Cons.prems row have "scrape_rows net a b c rows (rs @ [r]) st0 = (rs1, st1)" by simp
    from Cons.IH[OF this] obtain added where a:
      "rs1 = (rs @ [r]) @ added" "events st1 = events st0 @ detail_gets added"
      "length added = length (filter (\<lambda>columns. 5 \<le> length columns) rows)"
      "\<forall>r \<in> set added. mem_no r \<noteq> Some []" by blast
    have "rs1 = rs @ (r # added)" using a(1) by simp
    moreover have "events st1 = events st @ detail_gets (r # added)"
      using a(2) facts(1) Some by (simp add: detail_gets_def)
    moreover have "length (r # added) = length (filter (\<lambda>columns. 5 \<le> length columns) (columns # rows))"
      using a(3) facts(2) Some by auto
    moreover have "\<forall>x \<in> set (r # added). mem_no x \<noteq> Some []"
      using a(4) facts(3) Some by auto
    ultimately show ?thesis by blast
  qed
qed

lemma update_detail_events:
  "update_detail net r st = (r1, st1) \<Longrightarrow>
   events st1 = events st @ detail_gets [r] \<and> mem_no r1 = mem_no r"
  by (auto simp: update_detail_def detail_gets_def session_get_def
           split: option.splits if_splits http_result.splits)

lemma update_details_events:
  "update_details net rs st = (rs1, st1) \<Longrightarrow>
   events st1 = events st @ detail_gets rs \<and> map mem_no rs1 = map mem_no rs"
proof (induction rs arbitrary: st rs1 st1)
  case Nil
  then show ?case by (simp add: detail_gets_def)
next
  case (Cons r rs)
  obtain r0 st0 where one: "update_detail net r st = (r0, st0)"
    by (cases "update_detail net r st")
  obtain rs0 st2 where rest: "update_details net rs st0 = (rs0, st2)"
    by (cases "update_details net rs st0")
  from Cons.prems one rest have eq: "rs1 = r0 # rs0" "st1 = st2" by auto
  from update_detail_events[OF one] Cons.IH[OF rest] eq
  show ?case by (simp add: detail_gets_def)
qed

lemma is_first_page_request: "is_first_page (Get (office_list_request p a b c)) = (p = 1)"
  by (simp add: office_list_request_def)

lemma reported_pages_append: "reported_pages (xs @ ys) = reported_pages xs @ reported_pages ys"
  by (induction xs rule: reported_pages.induct) auto

lemma reported_pages_no_progress: "filter is_progress xs = [] \<Longrightarrow> reported_pages xs = []"
  by (induction xs rule: reported_pages.induct) auto

lemma report_events:
  "report cb n t k st = (res, st1) \<Longrightarrow>
   events st1 = events st @ (case cb of None \<Rightarrow> [] | Some f \<Rightarrow> [Progress n t k]) \<and>
   res = (case cb of None \<Rightarrow> CbReturns | Some f \<Rightarrow> f n t k)"
  by (auto simp: report_def split: option.splits)

lemma scrape_page_trace:
  assumes "scrape_page net cb a b c first cp tp rs st = step"
  shows "\<exists>mid added.
           events (step_state step) =
             events st @ (case cb of None \<Rightarrow> [] | Some f \<Rightarrow> [Progress cp tp (int (length rs))])
               @ mid @ detail_gets added \<and>
           (mid = [] \<or> 1 < cp \<and> mid = [Get (office_list_request cp a b c)]) \<and>
           (\<forall>r \<in> set added. mem_no r \<noteq> Some []) \<and>
           (case step of Abort s \<Rightarrow> added = []
            | Break rs1 s \<Rightarrow> rs1 = rs \<and> added = []
            | Continue tp1 rs1 s \<Rightarrow> rs1 = rs @ added \<and> (cp \<noteq> 1 \<longrightarrow> tp1 = tp)) \<and>
           (\<forall>f. cb = Some f \<and> f cp tp (int (length rs)) = CbRaises \<longrightarrow>
                mid = [] \<and> (\<exists>s. step = Abort s)) \<and>
           (\<forall>f. cb = Some f \<and> f cp tp (int (length rs)) = CbReturns \<and> 1 < cp \<longrightarrow> mid \<noteq> [])"
proof -
  let ?pre = "case cb of None \<Rightarrow> [] | Some f \<Rightarrow> [Progress cp tp (int (length rs))]"
  obtain res st1 where rep: "report cb cp tp (int (length rs)) st = (res, st1)"
    by (cases "report cb cp tp (int (length rs)) st")
  from report_events[OF rep] have ev1: "events st1 = events st @ ?pre"
    and res: "res = (case cb of None \<Rightarrow> CbReturns | Some f \<Rightarrow> f cp tp (int (length rs)))"
    by auto
  show ?thesis
  proof (cases res)
    case CbRaises
    with assms rep have "step = Abort st1" by (simp add: scrape_page_def)
    with ev1 res CbRaises show ?thesis
      by (intro exI[of _ "[]"]) (auto simp: detail_gets_def split: option.splits)
  next
    case CbReturns
    show ?thesis
    proof (cases "1 < cp")
      case True
      let ?req = "office_list_request cp a b c"
      obtain x st2 where get: "session_get net ?req st1 = (x, st2)"
        by (cases "session_get net ?req st1")
      from session_get_events[OF get] ev1
      have ev2: "events st2 = events st @ ?pre @ [Get ?req]" by simp
      show ?thesis
      proof (cases x)
        case Raises
        with assms rep CbReturns True get have "step = Abort st2"
          by (simp add: scrape_page_def)
        with ev2 res CbReturns True show ?thesis
          by (intro exI[of _ "[Get ?req]"] exI[of _ "[]"]) (auto simp: detail_gets_def)
      next
        case (Returns r)
        show ?thesis
        proof (cases "status_code r = 200")
          case False
          with assms rep CbReturns True get Returns have "step = Break rs st2"
            by (simp add: scrape_page_def)
          with ev2 res CbReturns True show ?thesis
            by (intro exI[of _ "[Get ?req]"] exI[of _ "[]"]) (auto simp: detail_gets_def)
        next
          case ok: True
          obtain rs1 st3 where rows:
            "scrape_rows net a b c (drop 1 (table_rows (soup r))) rs st2 = (rs1, st3)"
            by (cases "scrape_rows net a b c (drop 1 (table_rows (soup r))) rs st2")
          with assms rep CbReturns True get Returns ok have st: "step = Continue tp rs1 st3"
            by (simp add: scrape_page_def)
          from scrape_rows_events[OF rows] obtain added where
            "rs1 = rs @ added" "events st3 = events st2 @ detail_gets added"
            "\<forall>r \<in> set added. mem_no r \<noteq> Some []" by blast
          with st ev2 res CbReturns True show ?thesis
            by (intro exI[of _ "[Get ?req]"] exI[of _ added]) auto
        qed
      qed
    next
      case False
      obtain rs1 st3 where rows:
        "scrape_rows net a b c (drop 1 (table_rows first)) rs st1 = (rs1, st3)"
        by (cases "scrape_rows net a b c (drop 1 (table_rows first)) rs st1")
      with assms rep CbReturns False have st:
        "step = Continue (if cp = 1 then discover_total_pages first tp else tp) rs1 st3"
        by (simp add: scrape_page_def)
      from scrape_rows_events[OF rows] obtain added where
        "rs1 = rs @ added" "events st3 = events st1 @ detail_gets added"
        "\<forall>r \<in> set added. mem_no r \<noteq> Some []" by blast
      with st ev1 res CbReturns False show ?thesis
        by (intro exI[of _ "[]"] exI[of _ added]) auto
    qed
  qed
qed


lemma detail_gets_not_progress: "Progress n t k \<notin> set (detail_gets rs)"
  by (induction rs) (auto simp: detail_gets_def split: option.splits)

lemma scrape_page_summary:
  assumes "scrape_page net cb a b c first cp tp rs st = step"
  shows "\<exists>new added.
           events (step_state step) = events st @ new \<and>
           filter is_detail new = detail_gets added \<and>
           (\<forall>r \<in> set added. mem_no r \<noteq> Some []) \<and>
           filter is_first_page new = [] \<and>
           reported_pages new = (case cb of None \<Rightarrow> [] | Some f \<Rightarrow> [cp]) \<and>
           (\<forall>n t k. Progress n t k \<in> set new \<longrightarrow> n = cp \<and> t = tp \<and> k = int (length rs)) \<and>
           (case step of Abort s \<Rightarrow> True
            | Break rs1 s \<Rightarrow> rs1 = rs \<and> added = []
            | Continue tp1 rs1 s \<Rightarrow> rs1 = rs @ added) \<and>
           (\<forall>f. cb = Some f \<and> f cp tp (int (length rs)) = CbRaises \<longrightarrow> (\<exists>s. step = Abort s))"
proof -
  let ?pre = "case cb of None \<Rightarrow> [] | Some f \<Rightarrow> [Progress cp tp (int (length rs))]"
  from scrape_page_trace[OF assms] obtain mid added where
    ev: "events (step_state step) = events st @ ?pre @ mid @ detail_gets added"
    and mid: "mid = [] \<or> 1 < cp \<and> mid = [Get (office_list_request cp a b c)]"
    and mem: "\<forall>r \<in> set added. mem_no r \<noteq> Some []"
    and step: "case step of Abort s \<Rightarrow> added = []
            | Break rs1 s \<Rightarrow> rs1 = rs \<and> added = []
            | Continue tp1 rs1 s \<Rightarrow> rs1 = rs @ added \<and> (cp \<noteq> 1 \<longrightarrow> tp1 = tp)"
    and raises: "\<forall>f. cb = Some f \<and> f cp tp (int (length rs)) = CbRaises \<longrightarrow>
                mid = [] \<and> (\<exists>s. step = Abort s)"
    by blast
  let ?new = "?pre @ mid @ detail_gets added"
  have pre_d: "filter is_detail ?pre = []" and pre_f: "filter is_first_page ?pre = []"
    and pre_r: "reported_pages ?pre = (case cb of None \<Rightarrow> [] | Some f \<Rightarrow> [cp])"
    by (auto split: option.splits)
  have mid_d: "filter is_detail mid = []" and mid_f: "filter is_first_page mid = []"
    and mid_r: "reported_pages mid = []"
    using mid by (auto simp: office_list_request_def)
  have "filter is_detail ?new = detail_gets added"
    using pre_d mid_d by (simp add: detail_gets_only_details)
  moreover have "filter is_first_page ?new = []"
    using pre_f mid_f by (simp add: detail_gets_no_first_page)
  moreover have "reported_pages ?new = (case cb of None \<Rightarrow> [] | Some f \<Rightarrow> [cp])"
    using pre_r mid_r
    by (simp add: reported_pages_append reported_pages_no_progress[OF detail_gets_no_progress])
  moreover have "\<forall>n t k. Progress n t k \<in> set ?new \<longrightarrow> n = cp \<and> t = tp \<and> k = int (length rs)"
    using mid by (auto simp: detail_gets_not_progress split: option.splits)
  moreover have "case step of Abort s \<Rightarrow> True
            | Break rs1 s \<Rightarrow> rs1 = rs \<and> added = []
            | Continue tp1 rs1 s \<Rightarrow> rs1 = rs @ added"
    using step by (cases step) auto
  ultimately show ?thesis using ev mem raises by blast
qed

lemma consecutive_Cons:
  "cp # map (\<lambda>i. cp + 1 + int i) [0..<k] = map (\<lambda>i. cp + int i) [0..<Suc k]"
proof -
  have "[0..<Suc k] = 0 # map Suc [0..<k]"
    by (simp add: upt_conv_Cons map_Suc_upt del: upt_Suc)
  then show ?thesis by (simp del: upt_Suc add: comp_def add.assoc)
qed

lemma scrape_loop_trace:
  "scrape_loop net cb a b c first cp tp rs st = (out, st1) \<Longrightarrow>
   \<exists>new added.
     events st1 = events st @ new \<and>
     filter is_detail new = detail_gets added \<and>
     (\<forall>r \<in> set added. mem_no r \<noteq> Some []) \<and>
     (\<forall>rs1. out = Some rs1 \<longrightarrow> rs1 = rs @ added) \<and>
     filter is_first_page new = [] \<and>
     (\<exists>k. reported_pages new =
            (case cb of None \<Rightarrow> [] | Some f \<Rightarrow> map (\<lambda>i. cp + int i) [0..<k])) \<and>
     (\<forall>f n t k. cb = Some f \<and> Progress n t k \<in> set new \<and> f n t k = CbRaises \<longrightarrow> out = None)"
proof (induction net cb a b c first cp tp rs st arbitrary: out st1 rule: scrape_loop.induct)
  case (1 net cb a b c first cp tp rs st)
  show ?case
  proof (cases "cp \<le> tp")
    case False
    with "1.prems" have "out = Some rs" "st1 = st"
      by (simp_all add: scrape_loop.simps[of net cb a b c first cp tp rs st])
    moreover have "\<exists>k. reported_pages [] =
            (case cb of None \<Rightarrow> [] | Some f \<Rightarrow> map (\<lambda>i. cp + int i) [0..<k])"
      by (intro exI[of _ 0]) (simp split: option.splits)
    ultimately show ?thesis
      by (intro exI[of _ "[]"]) (simp add: detail_gets_def)
  next
    case True
    obtain step where step: "scrape_page net cb a b c first cp tp rs st = step" by simp
    from scrape_page_summary[OF step] obtain new1 added1 where
      ev: "events (step_state step) = events st @ new1"
      and det: "filter is_detail new1 = detail_gets added1"
      and mem: "\<forall>r \<in> set added1. mem_no r \<noteq> Some []"
      and fp: "filter is_first_page new1 = []"
      and rp: "reported_pages new1 = (case cb of None \<Rightarrow> [] | Some f \<Rightarrow> [cp])"
      and pr: "\<forall>n t k. Progress n t k \<in> set new1 \<longrightarrow> n = cp \<and> t = tp \<and> k = int (length rs)"
      and st: "case step of Abort s \<Rightarrow> True
            | Break rs1 s \<Rightarrow> rs1 = rs \<and> added1 = []
            | Continue tp1 rs1 s \<Rightarrow> rs1 = rs @ added1"
      and raises: "\<forall>f. cb = Some f \<and> f cp tp (int (length rs)) = CbRaises \<longrightarrow> (\<exists>s. step = Abort s)"
      by blast
    have one: "\<exists>k. reported_pages new1 =
            (case cb of None \<Rightarrow> [] | Some f \<Rightarrow> map (\<lambda>i. cp + int i) [0..<k])"
      using rp by (intro exI[of _ 1]) (simp split: option.splits)
    show ?thesis
    proof (cases step)
      case (Abort s)
      with "1.prems" True step have "out = None" "st1 = s"
        by (simp_all add: scrape_loop.simps[of net cb a b c first cp tp rs st])
      with ev det mem fp one Abort show ?thesis
        by (intro exI[of _ new1] exI[of _ added1]) auto
    next
      case (Break rs1 s)
      with "1.prems" True step have "out = Some rs1" "st1 = s"
        by (simp_all add: scrape_loop.simps[of net cb a b c first cp tp rs st])
      moreover have "\<forall>f n t k. cb = Some f \<and> Progress n t k \<in> set new1 \<and> f n t k = CbRaises \<longrightarrow> False"
        using pr raises Break by auto
      ultimately show ?thesis using ev det mem fp one Break st
        by (intro exI[of _ new1] exI[of _ added1]) auto
    next
      case (Continue tp1 rs1 s)
      with "1.prems" True step
      have rec: "scrape_loop net cb a b c first (cp + 1) tp1 rs1 s = (out, st1)"
        by (simp add: scrape_loop.simps[of net cb a b c first cp tp rs st])
      from "1.IH"[OF True _ rec] step Continue obtain new2 added2 k2 where
        ev2: "events st1 = events s @ new2"
        and det2: "filter is_detail new2 = detail_gets added2"
        and mem2: "\<forall>r \<in> set added2. mem_no r \<noteq> Some []"
        and out2: "\<forall>rs2. out = Some rs2 \<longrightarrow> rs2 = rs1 @ added2"
        and fp2: "filter is_first_page new2 = []"
        and rp2: "reported_pages new2 =
            (case cb of None \<Rightarrow> [] | Some f \<Rightarrow> map (\<lambda>i. cp + 1 + int i) [0..<k2])"
        and ab2: "\<forall>f n t k. cb = Some f \<and> Progress n t k \<in> set new2 \<and> f n t k = CbRaises \<longrightarrow> out = None"
        by blast
      have rs1: "rs1 = rs @ added1" using st Continue by simp
      have "events st1 = events st @ (new1 @ new2)" using ev ev2 Continue by simp
      moreover have "filter is_detail (new1 @ new2) = detail_gets (added1 @ added2)"
        using det det2 by (simp add: detail_gets_append)
      moreover have "\<forall>r \<in> set (added1 @ added2). mem_no r \<noteq> Some []"
        using mem mem2 by auto
      moreover have "\<forall>rs2. out = Some rs2 \<longrightarrow> rs2 = rs @ (added1 @ added2)"
        using out2 rs1 by simp
      moreover have "filter is_first_page (new1 @ new2) = []" using fp fp2 by simp
      moreover have "\<exists>k. reported_pages (new1 @ new2) =
            (case cb of None \<Rightarrow> [] | Some f \<Rightarrow> map (\<lambda>i. cp + int i) [0..<k])"
      proof (cases cb)
        case None
        with rp rp2 show ?thesis by (simp add: reported_pages_append)
      next
        case (Some f)
        with rp rp2 have "reported_pages (new1 @ new2) = cp # map (\<lambda>i. cp + 1 + int i) [0..<k2]"
          by (simp add: reported_pages_append)
        then have "reported_pages (new1 @ new2) = map (\<lambda>i. cp + int i) [0..<Suc k2]"
          by (simp only: consecutive_Cons)
        with Some show ?thesis by (intro exI[of _ "Suc k2"]) simp
      qed
      moreover have "\<forall>f n t k. cb = Some f \<and> Progress n t k \<in> set (new1 @ new2) \<and> f n t k = CbRaises
                       \<longrightarrow> out = None"
        using pr raises Continue ab2 by auto
      ultimately show ?thesis by blast
    qed
  qed
qed


lemma scrape_trace:
  assumes "scrape_office_data_from_html net cb a b c st = (rs, st1)"
  shows "\<exists>new added.
     events st1 = events st @ Get (office_list_request 1 a b c) # new \<and>
     filter is_detail new = detail_gets added \<and>
     (\<forall>r \<in> set added. mem_no r \<noteq> Some []) \<and>
     (rs \<noteq> [] \<longrightarrow> rs = added) \<and>
     filter is_first_page new = [] \<and>
     (\<exists>k. reported_pages new =
            (case cb of None \<Rightarrow> [] | Some f \<Rightarrow> map (\<lambda>i. 1 + int i) [0..<k])) \<and>
     (\<forall>f n t k. cb = Some f \<and> Progress n t k \<in> set new \<and> f n t k = CbRaises \<longrightarrow> rs = [])"
proof -
  let ?req = "office_list_request 1 a b c"
  obtain x st0 where get: "session_get net ?req st = (x, st0)"
    by (cases "session_get net ?req st")
  note ev0 = session_get_events[OF get]
  show ?thesis
  proof (cases "\<exists>r. x = Returns r \<and> status_code r = 200")
    case False
    with assms get have "rs = []" "st1 = st0"
      by (auto simp: scrape_office_data_from_html_def split: http_result.splits if_splits)
    moreover have "reported_pages [] =
            (case cb of None \<Rightarrow> [] | Some f \<Rightarrow> map (\<lambda>i. 1 + int i) [0..<0])"
      by (simp split: option.splits)
    ultimately show ?thesis using ev0
      by (intro exI[of _ "[]"] conjI exI[of _ 0]) (simp_all add: detail_gets_def)
  next
    case True
    then obtain r where r: "x = Returns r" "status_code r = 200" by blast
    obtain out st2 where loop: "scrape_loop net cb a b c (soup r) 1 1 [] st0 = (out, st2)"
      by (cases "scrape_loop net cb a b c (soup r) 1 1 [] st0")
    with assms get r have res: "rs = (case out of None \<Rightarrow> [] | Some rs1 \<Rightarrow> rs1)" "st1 = st2"
      by (auto simp: scrape_office_data_from_html_def split: option.splits)
    from scrape_loop_trace[OF loop] obtain new added where
      "events st2 = events st0 @ new" "filter is_detail new = detail_gets added"
      "\<forall>r \<in> set added. mem_no r \<noteq> Some []" "\<forall>rs1. out = Some rs1 \<longrightarrow> rs1 = [] @ added"
      "filter is_first_page new = []"
      "\<exists>k. reported_pages new =
            (case cb of None \<Rightarrow> [] | Some f \<Rightarrow> map (\<lambda>i. 1 + int i) [0..<k])"
      "\<forall>f n t k. cb = Some f \<and> Progress n t k \<in> set new \<and> f n t k = CbRaises \<longrightarrow> out = None"
      by blast
    with res ev0 show ?thesis
      by (intro exI[of _ new] exI[of _ added]) (auto split: option.splits)
  qed
qed

lemma get_sigungu_list_events:
  "get_sigungu_list net sido_name st = (x, st1) \<Longrightarrow>
   \<exists>new. events st1 = events st @ new \<and> (\<forall>e \<in> set new. is_combo e) \<and> results st1 = results st"
  by (auto simp: get_sigungu_list_def session_get_def
           split: option.splits if_splits http_result.splits)

lemma get_dong_list_events:
  "get_dong_list net sido_name sigungu_name st = (x, st1) \<Longrightarrow>
   \<exists>new. events st1 = events st @ new \<and> (\<forall>e \<in> set new. is_combo e) \<and> results st1 = results st"
  by (auto simp: get_dong_list_def session_get_def
           split: option.splits if_splits http_result.splits)

lemma lookup_sigungu_code_events:
  assumes "lookup_sigungu_code net sido_name sigungu_name st = (x, st1)"
  shows "\<exists>new. events st1 = events st @ new \<and> (\<forall>e \<in> set new. is_combo e) \<and>
               results st1 = results st"
proof -
  obtain y st0 where g: "get_sigungu_list net sido_name st = (y, st0)"
    by (cases "get_sigungu_list net sido_name st")
  from assms g have "st1 = st \<or> st1 = st0"
    by (auto simp: lookup_sigungu_code_def split: option.splits if_splits)
  with get_sigungu_list_events[OF g] show ?thesis by auto
qed

lemma lookup_dong_code_events:
  assumes "lookup_dong_code net sido_name sigungu_name dong_name st = (x, st1)"
  shows "\<exists>new. events st1 = events st @ new \<and> (\<forall>e \<in> set new. is_combo e) \<and>
               results st1 = results st"
proof -
  obtain y st0 where g: "get_dong_list net sido_name (the sigungu_name) st = (y, st0)"
    by (cases "get_dong_list net sido_name (the sigungu_name) st")
  from assms g have "st1 = st \<or> st1 = st0"
    by (auto simp: lookup_dong_code_def split: option.splits if_splits)
  with get_dong_list_events[OF g] show ?thesis by auto
qed

lemma get_total_pages_events:
  "get_total_pages net a b c st = (n, st1) \<Longrightarrow>
   events st1 = events st @ [Get (office_list_request 1 a b c)] \<and> results st1 = results st"
  by (auto simp: get_total_pages_def session_get_def
           split: http_result.splits if_splits sum.splits option.splits)

lemma combo_filters:
  assumes "\<forall>e \<in> set new. is_combo e"
  shows "filter is_detail new = []" and "filter is_first_page new = []"
    and "\<forall>n t k. Progress n t k \<notin> set new"
proof -
  have "\<And>e. is_combo e \<Longrightarrow> \<not> is_detail e \<and> \<not> is_first_page e \<and> \<not> is_progress e"
    by (erule is_combo.elims) auto
  with assms show "filter is_detail new = []" and "filter is_first_page new = []"
    and "\<forall>n t k. Progress n t k \<notin> set new"
    by (auto simp: filter_empty_conv)
qed

lemma search_trace:
  assumes "search_real_estate_offices net cb sido_name sigungu_name dong_name st = (ret, st1)"
  shows "(\<exists>new. events st1 = events st @ new \<and> filter is_detail new = [] \<and>
                length (filter is_first_page new) \<le> 1 \<and> \<not> ret \<and> results st1 = results st) \<or>
         (\<exists>new rs. events st1 = events st @ new \<and>
                filter is_detail new = detail_gets rs @ detail_gets rs \<and>
                length (filter is_first_page new) = 2 \<and> ret \<and>
                map mem_no (results st1) = map mem_no rs \<and>
                (\<forall>r \<in> set rs. mem_no r \<noteq> Some []) \<and> results st1 \<noteq> [] \<and>
                (\<forall>f n t k. cb = Some f \<and> Progress n t k \<in> set new \<longrightarrow> f n t k \<noteq> CbRaises)) \<or>
         (\<exists>new. events st1 = events st @ new \<and>
                length (filter is_first_page new) = 2 \<and> \<not> ret \<and> results st1 = [])"
proof -
  have early: ?thesis if "ret = False" "st1 = st"
    using that by (intro disjI1 exI[of _ "[]"]) simp
  show ?thesis
  proof (cases "\<exists>a. map_of sido_mapping sido_name = Some a \<and> a \<noteq> 0")
    case False
    with assms have "ret = False" "st1 = st"
      by (auto simp: search_real_estate_offices_def split: option.splits)
    then show ?thesis by (rule early)
  next
    case True
    then obtain a where a: "map_of sido_mapping sido_name = Some a" "a \<noteq> 0" by blast
    obtain x sta where lk1: "lookup_sigungu_code net sido_name sigungu_name st = (x, sta)"
      by (cases "lookup_sigungu_code net sido_name sigungu_name st")
    from lookup_sigungu_code_events[OF lk1] obtain n1 where
      n1: "events sta = events st @ n1" "\<forall>e \<in> set n1. is_combo e" "results sta = results st"
      by blast
    note f1 = combo_filters[OF n1(2)]
    show ?thesis
    proof (cases x)
      case None
      with assms a lk1 have "ret = False" "st1 = sta"
        by (auto simp: search_real_estate_offices_def)
      with n1 f1 show ?thesis by (intro disjI1 exI[of _ n1]) simp
    next
      case (Some b)
      obtain y stb where lk2: "lookup_dong_code net sido_name sigungu_name dong_name sta = (y, stb)"
        by (cases "lookup_dong_code net sido_name sigungu_name dong_name sta")
      from lookup_dong_code_events[OF lk2] obtain n2 where
        n2: "events stb = events sta @ n2" "\<forall>e \<in> set n2. is_combo e" "results stb = results sta"
        by blast
      note f2 = combo_filters[OF n2(2)]
      show ?thesis
      proof (cases y)
        case None
        with assms a lk1 Some lk2 have "ret = False" "st1 = stb"
          by (auto simp: search_real_estate_offices_def)
        with n1 f1 n2 f2 show ?thesis by (intro disjI1 exI[of _ "n1 @ n2"]) simp
      next
        case c: (Some c)
        let ?req = "Get (office_list_request 1 a b c)"
        obtain tpg stc where tot: "get_total_pages net a b c stb = (tpg, stc)"
          by (cases "get_total_pages net a b c stb")
        from get_total_pages_events[OF tot] have
          n3: "events stc = events stb @ [?req]" "results stc = results stb" by auto
        obtain res std where rep: "report cb 0 tpg 0 stc = (res, std)"
          by (cases "report cb 0 tpg 0 stc")
        let ?pre = "case cb of None \<Rightarrow> [] | Some f \<Rightarrow> [Progress 0 tpg 0]"
        from report_events[OF rep] have n4: "events std = events stc @ ?pre" by simp
        have n4r: "results std = results stc"
          using rep by (auto simp: report_def split: option.splits)
        have f4: "filter is_detail ?pre = []" "filter is_first_page ?pre = []"
          by (auto split: option.splits)
        have fr: "\<not> is_detail ?req" "is_first_page ?req"
          by (simp_all add: office_list_request_def)
        show ?thesis
        proof (cases res)
          case CbRaises
          with assms a lk1 Some lk2 c tot rep have "ret = False" "st1 = std"
            by (auto simp: search_real_estate_offices_def)
          moreover have "events std = events st @ (n1 @ n2 @ [?req] @ ?pre)"
            using n1 n2 n3 n4 by simp
          moreover have "filter is_detail (n1 @ n2 @ [?req] @ ?pre) = []"
            using f1 f2 f4 fr by simp
          moreover have "length (filter is_first_page (n1 @ n2 @ [?req] @ ?pre)) \<le> 1"
            using f1 f2 f4 fr by simp
          moreover have "results std = results st" using n1 n2 n3 n4r by simp
          ultimately have "\<exists>new. events st1 = events st @ new \<and> filter is_detail new = [] \<and>
                length (filter is_first_page new) \<le> 1 \<and> \<not> ret \<and> results st1 = results st"
            by (intro exI[of _ "n1 @ n2 @ [?req] @ ?pre"]) simp
          then show ?thesis by (rule disjI1)
        next
          case CbReturns
          obtain rs ste where scr: "scrape_office_data_from_html net cb a b c std = (rs, ste)"
            by (cases "scrape_office_data_from_html net cb a b c std")
          obtain rs1 stf where upd: "update_details net rs ste = (rs1, stf)"
            by (cases "update_details net rs ste")
          from assms a lk1 Some lk2 c tot rep CbReturns scr upd
          have fin: "ret = (0 < length rs1)" "st1 = stf\<lparr>results := rs1\<rparr>"
            by (auto simp: search_real_estate_offices_def)
          from scrape_trace[OF scr] obtain new added where
            n5: "events ste = events std @ ?req # new"
            and d5: "filter is_detail new = detail_gets added"
            and m5: "\<forall>r \<in> set added. mem_no r \<noteq> Some []"
            and r5: "rs \<noteq> [] \<longrightarrow> rs = added"
            and p5: "filter is_first_page new = []"
            and a5: "\<forall>f n t k. cb = Some f \<and> Progress n t k \<in> set new \<and> f n t k = CbRaises
                       \<longrightarrow> rs = []"
            by (elim exE conjE) (rule that; assumption)
          from update_details_events[OF upd] have
            n6: "events stf = events ste @ detail_gets rs" and m6: "map mem_no rs1 = map mem_no rs"
            by auto
          let ?all = "n1 @ n2 @ [?req] @ ?pre @ (?req # new) @ detail_gets rs"
          have ev: "events st1 = events st @ ?all"
            using fin n1 n2 n3 n4 n5 n6 by simp
          have fp: "length (filter is_first_page ?all) = 2"
            using f1 f2 f4 fr p5 by (simp add: detail_gets_no_first_page)
          have len: "(0 < length rs1) = (rs \<noteq> [])"
            using m6 by (metis length_greater_0_conv length_map)
          have det: "filter is_detail ?all = detail_gets added @ detail_gets rs"
            using f1 f2 f4 fr d5 by (simp add: detail_gets_only_details)
          show ?thesis
          proof (cases "rs = []")
            case True
            with m6 have "rs1 = []" by simp
            with ev fp fin have "\<exists>new. events st1 = events st @ new \<and>
                length (filter is_first_page new) = 2 \<and> \<not> ret \<and> results st1 = []"
              by (intro exI[of _ ?all]) simp
            then show ?thesis by (rule disjI2[OF disjI2])
          next
            case False
            with r5 have "rs = added" by simp
            have G: "\<forall>f n t k. cb = Some f \<and> Progress n t k \<in> set ?all \<longrightarrow> f n t k \<noteq> CbRaises"
            proof (intro allI impI)
              fix f n t k
              assume h: "cb = Some f \<and> Progress n t k \<in> set ?all"
              then have cbf: "cb = Some f" by (rule conjunct1)
              from h have "Progress n t k \<in> set ?all" by (rule conjunct2)
              moreover have "Progress n t k \<notin> set n1" "Progress n t k \<notin> set n2"
                "Progress n t k \<noteq> ?req" "Progress n t k \<notin> set (detail_gets rs)"
                using f1(3) f2(3) by (simp_all add: detail_gets_not_progress)
              ultimately have "Progress n t k \<in> set ?pre \<or> Progress n t k \<in> set new"
                by auto
              then show "f n t k \<noteq> CbRaises"
              proof
                assume "Progress n t k \<in> set ?pre"
                with cbf have "n = 0 \<and> t = tpg \<and> k = 0" by simp
                moreover have "f 0 tpg 0 = CbReturns"
                  using rep CbReturns cbf by (auto simp: report_def)
                ultimately show ?thesis by simp
              next
                assume "Progress n t k \<in> set new"
                with a5 cbf False show ?thesis by blast
              qed
            qed
            have B: "filter is_detail ?all = detail_gets rs @ detail_gets rs"
              using det \<open>rs = added\<close> by simp
            have D: ret using fin len False by simp
            have E: "map mem_no (results st1) = map mem_no rs" using fin m6 by simp
            have F: "\<forall>r \<in> set rs. mem_no r \<noteq> Some []" using m5 \<open>rs = added\<close> by simp
            have H: "results st1 \<noteq> []" using fin len False by simp
            have "\<exists>new rs. events st1 = events st @ new \<and>
                filter is_detail new = detail_gets rs @ detail_gets rs \<and>
                length (filter is_first_page new) = 2 \<and> ret \<and>
                map mem_no (results st1) = map mem_no rs \<and>
                (\<forall>r \<in> set rs. mem_no r \<noteq> Some []) \<and> results st1 \<noteq> [] \<and>
                (\<forall>f n t k. cb = Some f \<and> Progress n t k \<in> set new \<longrightarrow> f n t k \<noteq> CbRaises)"
              by (intro exI[of _ ?all] exI[of _ rs] conjI) (rule ev B fp D E F H G)+
            then show ?thesis by (rule disjI2[OF disjI1])
          qed
        qed
      qed
    qed
  qed
qed



lemma search_events_grow:
  assumes "search_real_estate_offices net cb sido_name sigungu_name dong_name st = (ret, st1)"
  shows "\<exists>new. events st1 = events st @ new"
  using search_trace[OF assms] by (elim disjE exE conjE) (rule exI, assumption)+


lemma scrape_page_reports_first:
  "\<exists>rest. events (step_state (scrape_page net (Some f) a b c first cp tp rs st)) =
             events st @ Progress cp tp (int (length rs)) # rest \<and>
          filter is_progress rest = [] \<and>
          (1 < cp \<and> f cp tp (int (length rs)) = CbReturns \<longrightarrow>
             take 1 rest = [Get (office_list_request cp a b c)])"
proof -
  obtain step where step: "scrape_page net (Some f) a b c first cp tp rs st = step" by simp
  from scrape_page_trace[OF step] obtain mid added where
    ev: "events (step_state step) =
           events st @ (case Some f of None \<Rightarrow> [] | Some f \<Rightarrow> [Progress cp tp (int (length rs))])
             @ mid @ detail_gets added"
    and mid: "mid = [] \<or> 1 < cp \<and> mid = [Get (office_list_request cp a b c)]"
    and fetch: "\<forall>g. Some f = Some g \<and> g cp tp (int (length rs)) = CbReturns \<and> 1 < cp \<longrightarrow> mid \<noteq> []"
    by (elim exE conjE) (rule that; assumption)
  have "events (step_state step) = events st @ Progress cp tp (int (length rs)) # (mid @ detail_gets added)"
    using ev by simp
  moreover have "filter is_progress (mid @ detail_gets added) = []"
    using mid by (auto simp: detail_gets_no_progress office_list_request_def)
  moreover have "1 < cp \<and> f cp tp (int (length rs)) = CbReturns \<longrightarrow>
             take 1 (mid @ detail_gets added) = [Get (office_list_request cp a b c)]"
  proof
    assume h: "1 < cp \<and> f cp tp (int (length rs)) = CbReturns"
    with fetch have "mid \<noteq> []" by blast
    with mid have "mid = [Get (office_list_request cp a b c)]" by blast
    then show "take 1 (mid @ detail_gets added) = [Get (office_list_request cp a b c)]" by simp
  qed
  ultimately show ?thesis unfolding step by (intro exI[of _ "mid @ detail_gets added"] conjI)
qed

lemma scrape_loop_reports:
  "\<exists>new k. events (snd (scrape_loop net (Some f) a b c first cp tp rs st)) = events st @ new \<and>
           reported_pages new = map (\<lambda>i. cp + int i) [0..<k]"
proof -
  obtain out st1 where loop: "scrape_loop net (Some f) a b c first cp tp rs st = (out, st1)"
    by (cases "scrape_loop net (Some f) a b c first cp tp rs st")
  from scrape_loop_trace[OF loop] obtain new k where
    "events st1 = events st @ new"
    "reported_pages new = (case Some f of None \<Rightarrow> [] | Some f \<Rightarrow> map (\<lambda>i. cp + int i) [0..<k])"
    by (elim exE conjE) (rule that; assumption)
  with loop show ?thesis by (intro exI[of _ new] exI[of _ k]) simp
qed

lemma scrape_loop_events_grow:
  "\<exists>new. events (snd (scrape_loop net cb a b c first cp tp rs st)) = events st @ new"
proof -
  obtain out st1 where loop: "scrape_loop net cb a b c first cp tp rs st = (out, st1)"
    by (cases "scrape_loop net cb a b c first cp tp rs st")
  from scrape_loop_trace[OF loop] obtain new where "events st1 = events st @ new"
    by (elim exE conjE) (rule that; assumption)
  with loop show ?thesis by simp
qed

lemma scrape_first_report:
  assumes "net (events st) (office_list_request 1 a b c) = Returns r" "status_code r = 200"
  shows "\<exists>rest. events (snd (scrape_office_data_from_html net (Some f) a b c st)) =
           events st @ Get (office_list_request 1 a b c) # Progress 1 1 0 # rest"
proof -
  let ?st0 = "st\<lparr>events := events st @ [Get (office_list_request 1 a b c)]\<rparr>"
  let ?step = "scrape_page net (Some f) a b c (soup r) 1 1 [] ?st0"
  let ?loop = "scrape_loop net (Some f) a b c (soup r) 1 1 [] ?st0"
  from scrape_page_reports_first[of net f a b c "soup r" 1 1 "[]" ?st0] obtain rest where
    page: "events (step_state ?step) = events ?st0 @ Progress 1 1 0 # rest" by auto
  have "\<exists>more. events (snd ?loop) = events (step_state ?step) @ more"
  proof (cases ?step)
    case (Abort s)
    then show ?thesis by (simp add: scrape_loop.simps[of net "Some f" a b c "soup r" 1 1 "[]" ?st0])
  next
    case (Break rs1 s)
    then show ?thesis by (simp add: scrape_loop.simps[of net "Some f" a b c "soup r" 1 1 "[]" ?st0])
  next
    case (Continue tp1 rs1 s)
    with scrape_loop_events_grow[of net "Some f" a b c "soup r" 2 tp1 rs1 s]
    show ?thesis by (simp add: scrape_loop.simps[of net "Some f" a b c "soup r" 1 1 "[]" ?st0])
  qed
  then obtain more where "events (snd ?loop) = events (step_state ?step) @ more" ..
  with page have "events (snd ?loop) =
      events st @ Get (office_list_request 1 a b c) # Progress 1 1 0 # (rest @ more)" by simp
  moreover have "snd (scrape_office_data_from_html net (Some f) a b c st) = snd ?loop"
    using assms
    by (simp add: scrape_office_data_from_html_def session_get_def split: prod.splits option.splits)
  ultimately show ?thesis by (intro exI[of _ "rest @ more"]) simp
qed

lemma scrape_loop_first_event:
  assumes "cp \<le> tp"
  shows "\<exists>rest. events (snd (scrape_loop net (Some f) a b c first cp tp rs st)) =
           events st @ Progress cp tp (int (length rs)) # rest"
proof -
  let ?step = "scrape_page net (Some f) a b c first cp tp rs st"
  let ?loop = "scrape_loop net (Some f) a b c first cp tp rs st"
  from scrape_page_reports_first[of net f a b c first cp tp rs st] obtain rest where
    page: "events (step_state ?step) = events st @ Progress cp tp (int (length rs)) # rest"
    by (elim exE conjE) (rule that; assumption)
  have "\<exists>more. events (snd ?loop) = events (step_state ?step) @ more"
  proof (cases ?step)
    case (Abort s)
    with assms show ?thesis
      by (simp add: scrape_loop.simps[of net "Some f" a b c first cp tp rs st])
  next
    case (Break rs1 s)
    with assms show ?thesis
      by (simp add: scrape_loop.simps[of net "Some f" a b c first cp tp rs st])
  next
    case (Continue tp1 rs1 s)
    with assms scrape_loop_events_grow[of net "Some f" a b c first "cp + 1" tp1 rs1 s]
    show ?thesis by (simp add: scrape_loop.simps[of net "Some f" a b c first cp tp rs st])
  qed
  then obtain more where "events (snd ?loop) = events (step_state ?step) @ more" ..
  with page show ?thesis by (intro exI[of _ "rest @ more"]) simp
qed

lemma scrape_next_report:
  "cp \<le> tp \<longrightarrow>
   (case scrape_page net (Some f) a b c first cp tp rs st of
      Continue tp1 rs1 st1 \<Rightarrow>
        take (length rs) rs1 = rs \<and>
        (cp + 1 \<le> tp1 \<longrightarrow>
           (\<exists>rest. events (snd (scrape_loop net (Some f) a b c first cp tp rs st)) =
                    events st1 @ Progress (cp + 1) tp1 (int (length rs1)) # rest))
    | _ \<Rightarrow> True)"
proof
  assume le: "cp \<le> tp"
  show "case scrape_page net (Some f) a b c first cp tp rs st of
      Continue tp1 rs1 st1 \<Rightarrow>
        take (length rs) rs1 = rs \<and>
        (cp + 1 \<le> tp1 \<longrightarrow>
           (\<exists>rest. events (snd (scrape_loop net (Some f) a b c first cp tp rs st)) =
                    events st1 @ Progress (cp + 1) tp1 (int (length rs1)) # rest))
    | _ \<Rightarrow> True"
  proof (cases "scrape_page net (Some f) a b c first cp tp rs st")
    case (Continue tp1 rs1 st1)
    from scrape_page_summary[OF Continue] have pre: "take (length rs) rs1 = rs"
      by (elim exE conjE) simp
    have next_turn: "scrape_loop net (Some f) a b c first cp tp rs st =
          scrape_loop net (Some f) a b c first (cp + 1) tp1 rs1 st1"
      using le Continue by (simp add: scrape_loop.simps[of net "Some f" a b c first cp tp rs st])
    have "\<exists>rest. events (snd (scrape_loop net (Some f) a b c first cp tp rs st)) =
                    events st1 @ Progress (cp + 1) tp1 (int (length rs1)) # rest"
      if "cp + 1 \<le> tp1"
      unfolding next_turn by (rule scrape_loop_first_event[OF that])
    with pre Continue show ?thesis by simp
  qed simp_all
qed

lemma scrape_first_report_obj:
  "\<forall>r. net (events st) (office_list_request 1 a b c) = Returns r \<and> status_code r = 200 \<longrightarrow>
      (\<exists>rest. events (snd (scrape_office_data_from_html net (Some f) a b c st)) =
           events st @ Get (office_list_request 1 a b c) # Progress 1 1 0 # rest)"
  using scrape_first_report[of net st a b c _ f] by blast

lemma two_page_first_turn:
  "scrape_page two_page_site (Some callback_returns) 1 None (JStr []) two_page_document 1 1 []
     init_crawler =
   Continue 2
     [\<lparr>sido = ''Seoul'', sigungu = [], dong = [], location = ''Mapo'', office_name = [],
       representative = ''Lee'', phone = [], mobile_phones = [], address = ''3 Hill Rd'',
       mem_no = None\<rparr>]
     \<lparr>results = [], sigungu_codes = None, dong_codes = None, events = [Progress 1 1 0]\<rparr>"
  by code_simp

subsection \<open>The loops over the phone elements\<close>

lemma fold_append_phone:
  "fold append_phone ys acc = rev (remdups (rev (acc @ ys)))" if "distinct acc"
  using that
proof (induction ys rule: rev_induct)
  case Nil
  then show ?case by (simp add: distinct_remdups_id)
next
  case (snoc y ys)
  let ?F = "rev (remdups (rev (acc @ ys)))"
  have IH: "fold append_phone ys acc = ?F" using snoc by simp
  have mem: "(y \<in> set ?F) = (y \<in> set (acc @ ys))" by auto
  have "fold append_phone (ys @ [y]) acc = append_phone y ?F" by (simp add: IH)
  also have "\<dots> = (if y \<in> set (acc @ ys) then ?F else ?F @ [y])"
    by (simp only: append_phone_def mem)
  also have "\<dots> = rev (remdups (rev (acc @ ys @ [y])))" by auto
  finally show ?case .
qed

lemma detail_mobile_phones_keep_first:
  "detail_mobile_phones doc = rev (remdups (rev (map strip (phone_elements doc))))"
proof -
  have "fold (\<lambda>e ms. append_phone (strip e) ms) xs acc = fold append_phone (map strip xs) acc"
    for xs acc
    by (simp add: fold_map comp_def)
  then show ?thesis
    using fold_append_phone[of "[]" "map strip (phone_elements doc)"]
    by (simp add: detail_mobile_phones_def)
qed

lemma row_phones_snd:
  "snd (fold (\<lambda>e (p, ms). (strip e, append_phone (strip e) ms)) xs (p0, acc)) =
   fold (\<lambda>e ms. append_phone (strip e) ms) xs acc"
  by (induction xs arbitrary: p0 acc) auto

lemma row_phones_mobile: "snd (row_phones (phone_elements doc) p) = detail_mobile_phones doc"
  by (simp add: row_phones_def detail_mobile_phones_def row_phones_snd)


subsection \<open>Dropping duplicates\<close>

lemma drop_duplicates_snoc:
  "drop_duplicates (xs @ [x]) =
     (if x \<in> set (drop_duplicates xs) then drop_duplicates xs else drop_duplicates xs @ [x])"
  by (simp add: drop_duplicates_def)

lemma set_drop_duplicates: "set (drop_duplicates xs) = set xs"
  by (induction xs rule: rev_induct) (auto simp: drop_duplicates_snoc drop_duplicates_def)

lemma nths_cong_below:
  assumes "\<And>i. i < length xs \<Longrightarrow> (i \<in> A) = (i \<in> B)"
  shows "nths xs A = nths xs B"
proof -
  have "filter (\<lambda>p. snd p \<in> A) (zip xs [0..<length xs]) =
        filter (\<lambda>p. snd p \<in> B) (zip xs [0..<length xs])"
    by (rule filter_cong) (auto dest!: set_zip_rightD simp: assms)
  then show ?thesis by (simp add: nths_def)
qed

lemma drop_duplicates_nths:
  "drop_duplicates xs = nths xs {i. \<forall>j<i. xs ! j \<noteq> xs ! i}"
proof (induction xs rule: rev_induct)
  case Nil
  then show ?case by (simp add: drop_duplicates_def)
next
  case (snoc x xs)
  let ?A = "{i. \<forall>j<i. (xs @ [x]) ! j \<noteq> (xs @ [x]) ! i}"
  have old: "nths xs ?A = nths xs {i. \<forall>j<i. xs ! j \<noteq> xs ! i}"
    by (rule nths_cong_below) (simp add: nth_append)
  have last: "(length xs \<in> ?A) = (x \<notin> set xs)"
    by (auto simp: nth_append in_set_conv_nth)
  have "nths (xs @ [x]) ?A = nths xs ?A @ nths [x] {j. j + length xs \<in> ?A}"
    by (rule nths_append)
  also have "nths [x] {j. j + length xs \<in> ?A} = (if x \<notin> set xs then [x] else [])"
    using last by (simp add: nths_singleton)
  finally have step: "nths (xs @ [x]) ?A = nths xs ?A @ (if x \<notin> set xs then [x] else [])" .
  have "drop_duplicates (xs @ [x]) = drop_duplicates xs @ (if x \<notin> set xs then [x] else [])"
    by (simp add: drop_duplicates_snoc set_drop_duplicates)
  with snoc step old show ?case by simp
qed


subsection \<open>Page numbers are never negative\<close>

lemma digit_val_nonneg: "is_decimal c \<Longrightarrow> 0 \<le> digit_val c"
  unfolding is_decimal_def digit_val_def by auto

lemma foldl_digits_nonneg:
  "list_all is_decimal s \<Longrightarrow> 0 \<le> a \<Longrightarrow> 0 \<le> foldl (\<lambda>a c. 10 * a + digit_val c) a s"
  by (induction s arbitrary: a) (auto simp: digit_val_nonneg)

lemma py_int_nonneg: "py_int s = Inr n \<Longrightarrow> 0 \<le> n"
  by (auto simp: py_int_def int_of_digits_def foldl_digits_nonneg split: if_splits)

lemma sequence_nonneg:
  "sequence xs = Inr ns \<Longrightarrow> \<forall>x \<in> set xs. \<forall>n. x = Inr n \<longrightarrow> 0 \<le> n \<Longrightarrow> \<forall>n \<in> set ns. 0 \<le> n"
  by (induction xs arbitrary: ns rule: sequence.induct) (auto split: sum.splits)

lemma page_numbers_nonneg: "page_numbers links = Inr ns \<Longrightarrow> \<forall>n \<in> set ns. 0 \<le> n"
  unfolding page_numbers_def
  by (erule sequence_nonneg) (auto dest: py_int_nonneg)

lemma fold_max_ge: "(x::int) \<le> fold max xs x"
  by (induction xs arbitrary: x) (auto intro: order_trans[OF max.cobounded2])

lemma list_max_nonneg: "ns \<noteq> [] \<Longrightarrow> \<forall>n \<in> set ns. 0 \<le> n \<Longrightarrow> 0 \<le> list_max ns"
  by (cases ns) (auto intro: order_trans[OF _ fold_max_ge])

lemma total_from_links_nonneg: "total_from_links links = Inr (Some n) \<Longrightarrow> 0 \<le> n"
  unfolding total_from_links_def
  by (auto split: option.splits sum.splits if_splits
           dest: py_int_nonneg page_numbers_nonneg intro: list_max_nonneg)

section \<open>The claims\<close>

text \<open>
  C1, as the code has it.  Pagination discovery never raises and never returns a negative
  count.  It returns 1 when the request itself raises and when the first page, served
  with status 200, has no pagination controls; it returns 0, not 1, when the page is
  served with another status.
\<close>

theorem get_total_pages_cases:
  "0 \<le> fst (get_total_pages net sido_code sigungu_code dong_code st) \<and>
   (net (events st) (office_list_request 1 sido_code sigungu_code dong_code) = Raises \<longrightarrow>
      fst (get_total_pages net sido_code sigungu_code dong_code st) = 1) \<and>
   (\<forall>r. net (events st) (office_list_request 1 sido_code sigungu_code dong_code) = Returns r \<longrightarrow>
      (status_code r \<noteq> 200 \<longrightarrow>
         fst (get_total_pages net sido_code sigungu_code dong_code st) = 0) \<and>
      (status_code r = 200 \<and> pagination_links (soup r) = [] \<longrightarrow>
         fst (get_total_pages net sido_code sigungu_code dong_code st) = 1))"
  unfolding get_total_pages_def session_get_def
  by (auto split: http_result.splits sum.splits option.splits dest: total_from_links_nonneg)

theorem get_total_pages_cases_witness:
  "fst (get_total_pages net_unreachable 1 None (JStr []) init_crawler) = 1 \<and>
   fst (get_total_pages empty_site 1 None (JStr []) init_crawler) = 1 \<and>
   fst (get_total_pages net_unavailable 2 None (JStr []) init_crawler) = 0"
  using get_total_pages_cases[of net_unreachable 1 None "JStr []" init_crawler]
    get_total_pages_cases[of empty_site 1 None "JStr []" init_crawler]
    get_total_pages_cases[of net_unavailable 2 None "JStr []" init_crawler]
  by (simp add: net_unreachable_def empty_site_def net_unavailable_def page_response_def
                empty_document_def)

text \<open>C1 as stated fails: a first page served with status 503 gives 0 pages.\<close>

theorem get_total_pages_counterexample:
  "fst (get_total_pages net_unavailable 1 None (JStr []) init_crawler) = 0"
  by code_simp










text \<open>
  C6, as the code has it.  The enriched field is built from whole text nodes: the text
  nodes of the detail document in which the phone pattern matches somewhere, each stripped,
  each kept at its first occurrence, in document order, joined with a comma and a space.
  Both loops of the source build the same list.  A detail page whose text nodes are
  02-123-4567 twice and 010-1234-5678 once gives 02-123-4567, 010-1234-5678.
\<close>

theorem mobile_phones_from_text_nodes:
  "detail_mobile_phones doc =
     rev (remdups (rev (map strip (filter re_search_phone (text_nodes doc))))) \<and>
   snd (row_phones (phone_elements doc) p) = detail_mobile_phones doc \<and>
   (\<forall>d. mem_no r = Some m \<and> m \<noteq> [] \<and> net (events st) (OfficeDetail m) = Returns d \<and>
        status_code d = 200 \<longrightarrow>
        mobile_phones (fst (update_detail net r st)) =
          join '', '' (detail_mobile_phones (soup d))) \<and>
   join '', '' (detail_mobile_phones detail_document) = ''02-123-4567, 010-1234-5678''"
proof (intro conjI)
  show "detail_mobile_phones doc =
     rev (remdups (rev (map strip (filter re_search_phone (text_nodes doc)))))"
    using detail_mobile_phones_keep_first[of doc] by (simp add: phone_elements_def)
  show "snd (row_phones (phone_elements doc) p) = detail_mobile_phones doc"
    by (rule row_phones_mobile)
  show "\<forall>d. mem_no r = Some m \<and> m \<noteq> [] \<and> net (events st) (OfficeDetail m) = Returns d \<and>
        status_code d = 200 \<longrightarrow>
        mobile_phones (fst (update_detail net r st)) =
          join '', '' (detail_mobile_phones (soup d))"
    by (simp add: update_detail_def session_get_def)
  show "join '', '' (detail_mobile_phones detail_document) = ''02-123-4567, 010-1234-5678''"
    by code_simp
qed

theorem mobile_phones_from_text_nodes_witness:
  "mem_no office_a = Some ''77'' \<and>
   mobile_phones (fst (update_detail site office_a init_crawler)) = ''02-123-4567, 010-1234-5678''"
  using mobile_phones_from_text_nodes[of detail_document "[]" office_a "''77''" site init_crawler,
          THEN conjunct2, THEN conjunct2]
  by (simp add: office_a_def site_def page_response_def)

text \<open>
  C6 as stated fails: for a text node that reads Tel 02-123-4567 the field holds the whole
  node, where the phone-shaped substring is 02-123-4567.
\<close>

theorem mobile_phones_counterexample:
  "join '', '' (detail_mobile_phones labelled_document) = ''Tel 02-123-4567'' \<and>
   spec_mobile_phones labelled_document = ''02-123-4567''"
  by code_simp

text \<open>
  C7, as the code has it.  A turn of the page loop for page \<open>n\<close> reports progress once,
  as the first thing it does: before page \<open>n\<close> is requested, and with the number of
  records gathered from the pages before \<open>n\<close> and the total page count known so far.
  Over the whole loop the pages reported are consecutive, each once.  The first report of
  a scrape is always (1, 1, 0), made right after the first page arrived.  When the turn for
  page \<open>n\<close> is over and the loop goes on, what happens next is the report for page
  \<open>n + 1\<close>, with the number of records gathered through page \<open>n\<close>.
\<close>

theorem progress_reported_before_page:
  "(\<exists>rest. events (step_state (scrape_page net (Some f) sido_code sigungu_code dong_code
                                  first cp tp rs st)) =
             events st @ Progress cp tp (int (length rs)) # rest \<and>
          filter is_progress rest = [] \<and>
          (1 < cp \<and> f cp tp (int (length rs)) = CbReturns \<longrightarrow>
             take 1 rest = [Get (office_list_request cp sido_code sigungu_code dong_code)])) \<and>
   (\<exists>new k. events (snd (scrape_loop net (Some f) sido_code sigungu_code dong_code
                           first cp tp rs st)) = events st @ new \<and>
           reported_pages new = map (\<lambda>i. cp + int i) [0..<k]) \<and>
   (\<forall>r. net (events st) (office_list_request 1 sido_code sigungu_code dong_code) = Returns r \<and>
        status_code r = 200 \<longrightarrow>
      (\<exists>rest. events (snd (scrape_office_data_from_html net (Some f) sido_code sigungu_code
                              dong_code st)) =
           events st @ Get (office_list_request 1 sido_code sigungu_code dong_code)
             # Progress 1 1 0 # rest)) \<and>
   (cp \<le> tp \<longrightarrow>
    (case scrape_page net (Some f) sido_code sigungu_code dong_code first cp tp rs st of
       Continue tp1 rs1 st1 \<Rightarrow>
         take (length rs) rs1 = rs \<and>
         (cp + 1 \<le> tp1 \<longrightarrow>
            (\<exists>rest. events (snd (scrape_loop net (Some f) sido_code sigungu_code dong_code
                                    first cp tp rs st)) =
                     events st1 @ Progress (cp + 1) tp1 (int (length rs1)) # rest))
     | _ \<Rightarrow> True))"
  by (intro conjI)
     (rule scrape_page_reports_first scrape_loop_reports scrape_first_report_obj
           scrape_next_report)+

theorem progress_reported_before_page_witness:
  "(\<exists>rest. events (step_state (scrape_page two_page_site (Some callback_returns) 1 None (JStr [])
                                  two_page_document 2 2 [] init_crawler)) =
             Progress 2 2 0 # rest \<and>
           take 1 rest = [Get (OfficeList 2 1 None None)]) \<and>
   (\<exists>rest. events (snd (scrape_office_data_from_html two_page_site (Some callback_returns) 1 None
                           (JStr []) init_crawler)) =
             Get (OfficeList 1 1 None None) # Progress 1 1 0 # rest) \<and>
   (\<exists>rest. events (snd (scrape_loop two_page_site (Some callback_returns) 1 None (JStr [])
                           two_page_document 1 1 [] init_crawler)) =
             Progress 1 1 0 # Progress 2 2 1 # rest)"
proof (intro conjI)
  note at_2 = progress_reported_before_page[of two_page_site callback_returns 1 None "JStr []"
                two_page_document 2 2 "[]" init_crawler]
  note at_1 = progress_reported_before_page[of two_page_site callback_returns 1 None "JStr []"
                two_page_document 1 1 "[]" init_crawler]
  show "\<exists>rest. events (step_state (scrape_page two_page_site (Some callback_returns) 1 None
                                    (JStr []) two_page_document 2 2 [] init_crawler)) =
             Progress 2 2 0 # rest \<and>
           take 1 rest = [Get (OfficeList 2 1 None None)]"
    using at_2[THEN conjunct1]
    by (auto simp: callback_returns_def init_crawler_def office_list_request_def)
  show "\<exists>rest. events (snd (scrape_office_data_from_html two_page_site (Some callback_returns) 1
                             None (JStr []) init_crawler)) =
             Get (OfficeList 1 1 None None) # Progress 1 1 0 # rest"
    using at_2[THEN conjunct2, THEN conjunct2, THEN conjunct1]
    by (simp add: two_page_site_def page_response_def init_crawler_def office_list_request_def)
  show "\<exists>rest. events (snd (scrape_loop two_page_site (Some callback_returns) 1 None (JStr [])
                             two_page_document 1 1 [] init_crawler)) =
             Progress 1 1 0 # Progress 2 2 1 # rest"
    using at_1[THEN conjunct2, THEN conjunct2, THEN conjunct2]
    by (simp add: two_page_first_turn)
qed

text \<open>
  C7 as stated fails: on a site of two pages with one office each, the reports are
  (1, 1, 0) and (2, 2, 1), the second one made before page 2 is requested; the counts
  through page 1 and page 2 are 1 and 2.
\<close>

theorem progress_counterexample:
  "events (snd (scrape_office_data_from_html two_page_site (Some callback_returns) 1 None (JStr [])
                  init_crawler)) =
     [Get (OfficeList 1 1 None None), Progress 1 1 0, Progress 2 2 1,
      Get (OfficeList 2 1 None None)] \<and>
   length (fst (scrape_office_data_from_html two_page_site (Some callback_returns) 1 None (JStr [])
                  init_crawler)) = 2"
  by code_simp




text \<open>
  C9.  The export removes exactly the records that equal an earlier record in every
  field: the rows written are those of the records at the positions \<open>i\<close> such that no
  earlier record equals the one at \<open>i\<close>, in their order.  What an export that succeeds
  writes is that frame.  Two equal records and a third that differs in its address give
  two rows.
\<close>

theorem export_drops_exact_duplicates:
  "frame_rows (clean_data data) =
     map office_row (nths data {i. \<forall>j<i. data ! j \<noteq> data ! i}) \<and>
   (\<forall>p. fst (export_to_csv env data filename directory files) = Some p \<longrightarrow>
        snd (export_to_csv env data filename directory files) = files @ [(p, clean_data data)]) \<and>
   length (frame_rows (clean_data [office_a, office_a, office_b])) = 2"
proof (intro conjI)
  show "frame_rows (clean_data data) =
     map office_row (nths data {i. \<forall>j<i. data ! j \<noteq> data ! i})"
    by (simp add: clean_data_def empty_frame_def drop_duplicates_nths)
  show "\<forall>p. fst (export_to_csv env data filename directory files) = Some p \<longrightarrow>
        snd (export_to_csv env data filename directory files) = files @ [(p, clean_data data)]"
    by (auto simp: export_to_csv_def Let_def)
  show "length (frame_rows (clean_data [office_a, office_a, office_b])) = 2"
    by code_simp
qed

theorem export_drops_exact_duplicates_witness:
  "export_to_csv test_env [office_a, office_a, office_b] (Some ''offices'') None [] =
     (Some ''/home/user/Documents/offices.csv'',
      [(''/home/user/Documents/offices.csv'',
        \<lparr>frame_columns = export_columns,
         frame_rows = [office_row office_a, office_row office_b]\<rparr>)])"
proof -
  have run: "fst (export_to_csv test_env [office_a, office_a, office_b] (Some ''offices'') None []) =
     Some ''/home/user/Documents/offices.csv''"
    by code_simp
  have frame: "clean_data [office_a, office_a, office_b] =
      \<lparr>frame_columns = export_columns,
       frame_rows = [office_row office_a, office_row office_b]\<rparr>"
    by code_simp
  from export_drops_exact_duplicates[of "[office_a, office_a, office_b]" test_env
         "Some ''offices''" None "[]", THEN conjunct2, THEN conjunct1] run
  have "snd (export_to_csv test_env [office_a, office_a, office_b] (Some ''offices'') None []) =
        [] @ [(''/home/user/Documents/offices.csv'', clean_data [office_a, office_a, office_b])]"
    by blast
  with run frame show ?thesis by (simp add: prod_eq_iff)
qed




end
